theory Spec2Isabelle
  imports Main
begin

section \<open>Python string operations used by the client\<close>

text \<open>
  A Python \<open>str\<close> is modelled as a \<open>string\<close>; a \<open>char\<close> stands for the code point of
  the same number (code points above U+00FF are outside the model). Only the operations
  that \<open>moltchat/client.py\<close> calls are modelled, each with the behaviour of the Python
  built-in of the same name.
\<close>

definition crlf :: string where
  "crlf = [CHR 0x0D, CHR 0x0A]"

text \<open>\<open>str.isspace\<close> on one character: TAB..CR, FS..US, SPACE, NEL and NBSP.\<close>

definition isspace :: "char \<Rightarrow> bool" where
  "isspace c = (let n = (of_char c :: nat)
                in (9 \<le> n \<and> n \<le> 13) \<or> (28 \<le> n \<and> n \<le> 32) \<or> n = 133 \<or> n = 160)"

text \<open>\<open>s.strip()\<close>: whitespace removed at both ends.\<close>

definition strip :: "string \<Rightarrow> string" where
  "strip s = rev (dropWhile isspace (rev (dropWhile isspace s)))"

text \<open>\<open>s.startswith(p)\<close>.\<close>

definition startswith :: "string \<Rightarrow> string \<Rightarrow> bool" where
  "startswith s p = (take (length p) s = p)"

text \<open>\<open>s.find(sep)\<close>: the lowest index at which \<open>sep\<close> occurs in \<open>s\<close>, if any.\<close>

fun str_find :: "string \<Rightarrow> string \<Rightarrow> nat option" where
  "str_find sep [] = (if sep = [] then Some 0 else None)"
| "str_find sep (c # cs) =
     (if startswith (c # cs) sep then Some 0 else map_option Suc (str_find sep cs))"

text \<open>\<open>sub in s\<close>.\<close>

definition contains :: "string \<Rightarrow> string \<Rightarrow> bool" where
  "contains s sub = (str_find sub s \<noteq> None)"

text \<open>\<open>s.partition(sep)\<close>: split at the first occurrence of \<open>sep\<close>; without one the result
  is \<open>(s, '', '')\<close>.\<close>

definition str_partition :: "string \<Rightarrow> string \<Rightarrow> string \<times> string \<times> string" where
  "str_partition sep s =
     (case str_find sep s of
        None \<Rightarrow> (s, [], [])
      | Some i \<Rightarrow> (take i s, sep, drop (i + length sep) s))"

text \<open>\<open>s.split(sep, maxsplit)\<close> with a non-negative \<open>maxsplit\<close>.\<close>

fun str_split_n :: "string \<Rightarrow> nat \<Rightarrow> string \<Rightarrow> string list" where
  "str_split_n sep 0 s = [s]"
| "str_split_n sep (Suc n) s =
     (case str_find sep s of
        None \<Rightarrow> [s]
      | Some i \<Rightarrow> take i s # str_split_n sep n (drop (i + length sep) s))"

text \<open>\<open>s.split(sep)\<close> without a limit. Python raises \<open>ValueError\<close> for an empty separator;
  every call in the client passes a non-empty literal, and the model returns \<open>[s]\<close> there.\<close>

function str_split :: "string \<Rightarrow> string \<Rightarrow> string list" where
  "str_split sep s =
     (if sep = [] then [s]
      else case str_find sep s of
             None \<Rightarrow> [s]
           | Some i \<Rightarrow> take i s # str_split sep (drop (i + length sep) s))"
  by pat_completeness auto
termination
proof (relation "measure (\<lambda>(sep, s). length s)")
  show "wf (measure (\<lambda>(sep, s). length s))" by simp
next
  fix sep s :: string and i :: nat
  assume ne: "sep \<noteq> []" and f: "str_find sep s = Some i"
  have "\<And>j. str_find sep s = Some j \<Longrightarrow> j + length sep \<le> length s"
  proof (induction s)
    case Nil
    with ne show ?case by simp
  next
    case (Cons c cs)
    show ?case
    proof (cases "startswith (c # cs) sep")
      case True
      then have "take (length sep) (c # cs) = sep"
        by (simp only: startswith_def)
      then have "length (take (length sep) (c # cs)) = length sep"
        by (rule arg_cong)
      then have "length sep \<le> length (c # cs)"
        by simp
      with True Cons.prems show ?thesis by simp
    next
      case False
      with Cons.prems obtain k where "str_find sep cs = Some k" and "j = Suc k"
        by auto
      with Cons.IH show ?thesis by fastforce
    qed
  qed
  from this [OF f] ne have "length (drop (i + length sep) s) < length s"
    by (cases sep) auto
  then show "((sep, drop (i + length sep) s), (sep, s)) \<in> measure (\<lambda>(sep, s). length s)"
    by simp
qed

text \<open>\<open>s.split()\<close>: the maximal runs of non-whitespace characters, in order.\<close>

fun split_ws_acc :: "string \<Rightarrow> string \<Rightarrow> string list" where
  "split_ws_acc acc [] = (if acc = [] then [] else [rev acc])"
| "split_ws_acc acc (c # cs) =
     (if isspace c
      then (if acc = [] then split_ws_acc [] cs else rev acc # split_ws_acc [] cs)
      else split_ws_acc (c # acc) cs)"

definition split_ws :: "string \<Rightarrow> string list" where
  "split_ws s = split_ws_acc [] s"

text \<open>\<open>re.search(r'\[Soul:([^\]]+)\]', s)\<close> tried at the start of \<open>s\<close> only: the literal
  \<open>[Soul:\<close>, then the longest run of characters other than \<open>]\<close>, which must be non-empty
  and followed by \<open>]\<close> (a shorter run is followed by a character of the run, never by
  \<open>]\<close>, so backtracking finds nothing else). The result is group 1 and the text after
  the match.\<close>

definition soul_match_at :: "string \<Rightarrow> (string \<times> string) option" where
  "soul_match_at s =
     (if startswith s ''[Soul:''
      then (let rest = drop 6 s;
                grp = takeWhile (\<lambda>c. c \<noteq> CHR '']'') rest;
                after = dropWhile (\<lambda>c. c \<noteq> CHR '']'') rest
            in if grp \<noteq> [] \<and> after \<noteq> [] then Some (grp, tl after) else None)
      else None)"

text \<open>\<open>re.search(...)\<close>: group 1 of the leftmost match.\<close>

fun re_search_soul :: "string \<Rightarrow> string option" where
  "re_search_soul [] = None"
| "re_search_soul (c # cs) =
     (case soul_match_at (c # cs) of
        Some (grp, rest) \<Rightarrow> Some grp
      | None \<Rightarrow> re_search_soul cs)"

text \<open>\<open>re.sub(r'\[Soul:[^\]]+\]', '', s)\<close>: every non-overlapping match, scanning from the
  left, is deleted.\<close>

function re_sub_soul :: "string \<Rightarrow> string" where
  "re_sub_soul [] = []"
| "re_sub_soul (c # cs) =
     (case soul_match_at (c # cs) of
        Some (grp, rest) \<Rightarrow> re_sub_soul rest
      | None \<Rightarrow> c # re_sub_soul cs)"
  by pat_completeness auto
termination
proof (relation "measure length")
  show "wf (measure length)" by simp
next
  fix c :: char and cs grp rest :: string and x :: "string \<times> string"
  assume m: "soul_match_at (c # cs) = Some x" and x: "(grp, rest) = x"
  let ?r = "drop 6 (c # cs)"
  from m x have "rest = tl (dropWhile (\<lambda>c. c \<noteq> CHR '']'') ?r)"
    by (auto simp: soul_match_at_def Let_def split: if_splits)
  moreover have "length (dropWhile (\<lambda>c. c \<noteq> CHR '']'') ?r) \<le> length ?r"
    by (rule length_dropWhile_le)
  ultimately have "length rest < length (c # cs)"
    by simp
  then show "(rest, c # cs) \<in> measure length" by simp
qed simp

section \<open>Exceptions\<close>

text \<open>
  What the client can meet raised: the exceptions of its own statements, the ones of the
  transport, whatever error a handler raises (\<open>UserError\<close>), and the three that Python
  keeps outside \<open>Exception\<close>: \<open>SystemExit\<close> (a handler calling \<open>sys.exit\<close>),
  \<open>KeyboardInterrupt\<close>, and \<open>asyncio.CancelledError\<close> (a \<open>BaseException\<close> since Python
  3.8, the oldest version \<open>setup.py\<close> admits).
\<close>

datatype pyexc =
    IndexError
  | UnicodeDecodeError
  | TypeError
  | OSError string
  | UserError string
  | SystemExit
  | KeyboardInterrupt
  | CancelledError

text \<open>\<open>isinstance(e, Exception)\<close>: what an \<open>except Exception\<close> catches.\<close>

fun is_exception :: "pyexc \<Rightarrow> bool" where
  "is_exception SystemExit = False"
| "is_exception KeyboardInterrupt = False"
| "is_exception CancelledError = False"
| "is_exception e = True"

text \<open>\<open>xs[i]\<close> on a list: a negative index counts from the end, and an index outside the
  list raises \<open>IndexError\<close>.\<close>

definition getitem :: "'a list \<Rightarrow> int \<Rightarrow> pyexc + 'a" where
  "getitem xs i =
     (let k = (if i < 0 then i + int (length xs) else i)
      in if k < 0 \<or> int (length xs) \<le> k then Inl IndexError else Inr (xs ! nat k))"

section \<open>Soul\<close>

record soul =
  soul_id :: string
  seed :: string
  agent_name :: string
  paradigm :: string
  mode :: string

text \<open>
  \<open>Soul.sign\<close>. The digest comes from Python's \<open>hmac\<close> and \<open>hashlib\<close> modules, which are
  not code of this repository: \<open>hmac_hex key msg\<close> stands for
  \<open>hmac.new(key, msg, hashlib.sha256).hexdigest()\<close> and is a parameter.
\<close>

definition sign :: "(string \<Rightarrow> string \<Rightarrow> string) \<Rightarrow> soul \<Rightarrow> string \<Rightarrow> string" where
  "sign hmac_hex s content = hmac_hex (seed s) content"

text \<open>\<open>hmac.compare_digest\<close> on two \<open>str\<close> arguments: equality, and \<open>TypeError\<close> when one
  of them has a non-ASCII character.\<close>

definition compare_digest :: "string \<Rightarrow> string \<Rightarrow> pyexc + bool" where
  "compare_digest a b =
     (if list_all (\<lambda>c. (of_char c :: nat) < 128) (a @ b) then Inr (a = b) else Inl TypeError)"

definition verify :: "(string \<Rightarrow> string \<Rightarrow> string) \<Rightarrow> soul \<Rightarrow> string \<Rightarrow> string \<Rightarrow> pyexc + bool" where
  "verify hmac_hex s content sig =
     (let expected = sign hmac_hex s content in compare_digest expected sig)"

section \<open>Message\<close>

text \<open>The \<open>timestamp\<close> field (the wall clock at construction) is left out.\<close>

record message =
  channel :: string
  m_nick :: string
  content :: string
  m_soul_id :: "string option"
  signature :: "string option"

definition is_verified :: "message \<Rightarrow> bool" where
  "is_verified m = (m_soul_id m \<noteq> None \<and> signature m \<noteq> None)"

section \<open>AgentClient\<close>

text \<open>
  The arguments an event is triggered with: none (\<open>connect\<close>, \<open>disconnect\<close> after the read
  loop), the exception (\<open>disconnect\<close> after a connection error), the message, channel and
  nick (\<open>join\<close>, \<open>part\<close>), or the nick (\<open>quit\<close>).
\<close>

datatype event_arg =
    NoArgs
  | ErrorArg pyexc
  | MessageArg message
  | ChannelNickArg string string
  | NickArg string

text \<open>
  A handler is a callable: \<open>hname\<close> identifies it, and \<open>hrun\<close> says whether a call with
  given arguments returns (\<open>None\<close>) or raises. A coroutine function is awaited where a
  plain function is called, so both run to their end before the next handler starts.
  What a handler does beyond returning or raising is its own business and not modelled.
\<close>

record handler =
  hname :: string
  hrun :: "event_arg \<Rightarrow> pyexc option"

text \<open>
  What the client does to the outside, in order: opening a connection, writing bytes to
  the transport, closing the writer, triggering an event, calling a handler, the log
  records at \<open>error\<close> and \<open>info\<close> level, sleeping.
\<close>

datatype obs =
    OpenConnection
  | Wrote string
  | Closed
  | Fired string event_arg
  | Called string string event_arg
  | LogHandlerError string pyexc
  | LogConnectionError pyexc
  | LogMessageError pyexc
  | LogReconnecting
  | Sleep nat

text \<open>
  The stream writer: \<open>Writer (Some n)\<close> takes \<open>n\<close> more sends before \<open>drain\<close> raises,
  \<open>Writer None\<close> never fails.
\<close>

datatype writer = Writer "nat option"

text \<open>
  The client object. \<open>host\<close>, \<open>port\<close>, \<open>use_ssl\<close> and \<open>_services\<close> play no part in what
  is modelled and are left out. \<open>has_reader\<close> says that \<open>self.reader\<close> is set; the lines
  the reader will deliver belong to the environment. \<open>tasks\<close> holds the lines of the
  \<open>_send\<close> coroutines handed to \<open>asyncio.create_task\<close>, \<open>trace\<close> what the client has done.
\<close>

record client =
  nick :: string
  soul :: "soul option"
  auto_reconnect :: bool
  has_reader :: bool
  writer :: "writer option"
  connected :: bool
  channels :: "string set"
  handlers :: "string \<Rightarrow> handler list option"
  tasks :: "string list"
  trace :: "obs list"

text \<open>\<open>AgentClient.__init__\<close>.\<close>

definition init_client :: "string \<Rightarrow> soul option \<Rightarrow> bool \<Rightarrow> client" where
  "init_client nk sl auto =
     \<lparr> nick = nk, soul = sl, auto_reconnect = auto, has_reader = False, writer = None,
       connected = False, channels = {},
       handlers = [''connect'' \<mapsto> [], ''disconnect'' \<mapsto> [], ''message'' \<mapsto> [],
                   ''join'' \<mapsto> [], ''part'' \<mapsto> [], ''quit'' \<mapsto> []],
       tasks = [], trace = [] \<rparr>"

text \<open>A coroutine of the client returns the client, or raises with the client as it is
  at that moment.\<close>

type_synonym result = "(pyexc \<times> client) + client"

definition emit :: "client \<Rightarrow> obs \<Rightarrow> client" where
  "emit st ob = st\<lparr>trace := trace st @ [ob]\<rparr>"

text \<open>\<open>self._handlers.get(event, [])\<close>.\<close>

definition handlers_get :: "client \<Rightarrow> string \<Rightarrow> handler list" where
  "handlers_get st event = (case handlers st event of None \<Rightarrow> [] | Some fs \<Rightarrow> fs)"

text \<open>\<open>AgentClient.on\<close>: the decorator applied to \<open>func\<close>. A name without a list gets
  an empty one first.\<close>

definition on :: "client \<Rightarrow> string \<Rightarrow> handler \<Rightarrow> client" where
  "on st event func =
     (let hs = (if handlers st event = None then (handlers st)(event \<mapsto> []) else handlers st)
      in st\<lparr>handlers := hs(event \<mapsto> (case hs event of None \<Rightarrow> [] | Some fs \<Rightarrow> fs) @ [func])\<rparr>)"

text \<open>One handler call of \<open>_trigger\<close>, inside its \<open>try\<close>.\<close>

definition call_handler :: "string \<Rightarrow> event_arg \<Rightarrow> handler \<Rightarrow> client \<Rightarrow> result" where
  "call_handler event arg h st =
     (let st1 = emit st (Called event (hname h) arg)
      in case hrun h arg of None \<Rightarrow> Inr st1 | Some e \<Rightarrow> Inl (e, st1))"

text \<open>The \<open>for\<close> loop of \<open>_trigger\<close>: the \<open>except Exception\<close> logs and goes on; what it
  does not catch leaves the loop and the function.\<close>

fun trigger_loop :: "string \<Rightarrow> event_arg \<Rightarrow> handler list \<Rightarrow> client \<Rightarrow> result" where
  "trigger_loop event arg [] st = Inr st"
| "trigger_loop event arg (h # hs) st =
     (case call_handler event arg h st of
        Inr st1 \<Rightarrow> trigger_loop event arg hs st1
      | Inl (e, st1) \<Rightarrow>
          if is_exception e
          then trigger_loop event arg hs (emit st1 (LogHandlerError event e))
          else Inl (e, st1))"

text \<open>\<open>AgentClient._trigger\<close>.\<close>

definition trigger :: "client \<Rightarrow> string \<Rightarrow> event_arg \<Rightarrow> result" where
  "trigger st event arg =
     trigger_loop event arg (handlers_get st event) (emit st (Fired event arg))"

text \<open>\<open>AgentClient._send\<close>: nothing without a writer; otherwise the line and its
  terminator are written, unless the writer fails.\<close>

definition send :: "client \<Rightarrow> string \<Rightarrow> result" where
  "send st msg =
     (case writer st of
        None \<Rightarrow> Inr st
      | Some (Writer None) \<Rightarrow> Inr (emit st (Wrote (msg @ crlf)))
      | Some (Writer (Some 0)) \<Rightarrow> Inl (OSError ''Connection lost'', st)
      | Some (Writer (Some (Suc n))) \<Rightarrow>
          Inr (emit (st\<lparr>writer := Some (Writer (Some n))\<rparr>) (Wrote (msg @ crlf))))"

text \<open>The client after a step, whether the step returned or raised.\<close>

definition client_of :: "result \<Rightarrow> client" where
  "client_of r = (case r of Inl (e, st) \<Rightarrow> st | Inr st \<Rightarrow> st)"

text \<open>Sequencing of two coroutine steps: an exception of the first skips the second.\<close>

definition and_then :: "result \<Rightarrow> (client \<Rightarrow> result) \<Rightarrow> result" where
  "and_then r f = (case r of Inl x \<Rightarrow> Inl x | Inr st \<Rightarrow> f st)"

text \<open>The \<open>PRIVMSG\<close> branch of \<open>_parse_message\<close> up to the construction of the message.
  \<open>signature\<close> is set to \<open>None\<close> and never assigned again.\<close>

definition privmsg_message :: "string \<Rightarrow> string \<Rightarrow> message" where
  "privmsg_message nk params =
     (case str_partition '' :'' params of (target, sep, content0) \<Rightarrow>
        (let found = (if contains content0 ''[Soul:'' then re_search_soul content0 else None)
         in case found of
              Some grp \<Rightarrow>
                \<lparr> channel = target, m_nick = nk, content = strip (re_sub_soul content0),
                  m_soul_id = Some grp, signature = None \<rparr>
            | None \<Rightarrow>
                \<lparr> channel = target, m_nick = nk, content = content0,
                  m_soul_id = None, signature = None \<rparr>))"

text \<open>The dispatch on \<open>command\<close> in \<open>_parse_message\<close>, with \<open>nick\<close> already extracted.\<close>

definition dispatch_command :: "client \<Rightarrow> string \<Rightarrow> string \<Rightarrow> string \<Rightarrow> result" where
  "dispatch_command st nk command params =
     (if command = ''PRIVMSG'' then
        trigger st ''message'' (MessageArg (privmsg_message nk params))
      else if command = ''JOIN'' then
        (case getitem (str_split '' :'' params) (- 1) of
           Inl e \<Rightarrow> Inl (e, st)
         | Inr chan \<Rightarrow>
             trigger (if nk = nick st then st\<lparr>channels := insert chan (channels st)\<rparr> else st)
               ''join'' (ChannelNickArg chan nk))
      else if command = ''PART'' then
        (case getitem (split_ws params) 0 of
           Inl e \<Rightarrow> Inl (e, st)
         | Inr chan \<Rightarrow>
             trigger (if nk = nick st then st\<lparr>channels := channels st - {chan}\<rparr> else st)
               ''part'' (ChannelNickArg chan nk))
      else if command = ''QUIT'' then
        trigger st ''quit'' (NickArg nk)
      else Inr st)"

text \<open>The nick of a source: \<open>source.split("!")[0] if "!" in source else source\<close>.\<close>

definition source_nick :: "string \<Rightarrow> pyexc + string" where
  "source_nick source =
     (if contains source ''!'' then getitem (str_split ''!'' source) 0 else Inr source)"

text \<open>\<open>AgentClient._parse_message\<close>.\<close>

definition parse_message :: "client \<Rightarrow> string \<Rightarrow> result" where
  "parse_message st line =
     (if startswith line ''PING'' then send st (''PONG '' @ drop 5 line)
      else if startswith line '':'' then
        (let parts = str_split_n '' '' 2 (drop 1 line)
         in if 2 \<le> length parts then
              (let source = parts ! 0;
                   command = parts ! 1;
                   params = (if 2 < length parts then parts ! 2 else [])
               in case source_nick source of
                    Inl e \<Rightarrow> Inl (e, st)
                  | Inr nk \<Rightarrow> dispatch_command st nk command params)
            else Inr st)
      else Inr st)"

text \<open>\<open>AgentClient.say\<close>, \<open>join\<close>, \<open>part\<close> and \<open>quit\<close>, called while the event loop
  runs: each hands a \<open>_send\<close> coroutine to \<open>asyncio.create_task\<close> and returns. When the
  loop runs the task is not modelled.\<close>

definition create_task_send :: "client \<Rightarrow> string \<Rightarrow> client" where
  "create_task_send st msg = st\<lparr>tasks := tasks st @ [msg]\<rparr>"

definition say :: "(string \<Rightarrow> string \<Rightarrow> string) \<Rightarrow> client \<Rightarrow> string \<Rightarrow> string \<Rightarrow> bool \<Rightarrow> client" where
  "say hmac_hex st target msg signed =
     (let msg' = (case soul st of
                    Some sl \<Rightarrow>
                      if signed
                      then ''[Soul:'' @ soul_id sl @ ''] '' @ msg @ '' [Sig:''
                             @ take 16 (sign hmac_hex sl msg) @ ''...]''
                      else msg
                  | None \<Rightarrow> msg)
      in create_task_send st (''PRIVMSG '' @ target @ '' :'' @ msg'))"

definition join :: "client \<Rightarrow> string \<Rightarrow> client" where
  "join st chan = create_task_send st (''JOIN '' @ chan)"

definition part :: "client \<Rightarrow> string \<Rightarrow> string \<Rightarrow> client" where
  "part st chan reason =
     (let cmd = ''PART '' @ chan;
          cmd' = (if reason \<noteq> [] then cmd @ '' :'' @ reason else cmd)
      in create_task_send st cmd')"

definition quit :: "client \<Rightarrow> string \<Rightarrow> client" where
  "quit st reason =
     (let st1 = st\<lparr>auto_reconnect := False\<rparr>;
          st2 = create_task_send st1 (''QUIT :'' @ reason)
      in if writer st2 \<noteq> None then emit st2 Closed else st2)"

section \<open>The read loop and the connection\<close>

text \<open>
  What one \<open>readline\<close> gives: the bytes of a line, written as the text they decode to
  (\<open>Data []\<close> is the empty bytes of end of file), bytes that are not valid UTF-8
  (\<open>Garbage\<close>), or an exception. A reader whose list is used up is at end of file.
\<close>

datatype read = Data string | Garbage | ReadFails pyexc

text \<open>The \<open>except Exception\<close> of the read loop: it logs and breaks; what it does not
  catch leaves the loop and the function.\<close>

definition loop_except :: "pyexc \<Rightarrow> client \<Rightarrow> result" where
  "loop_except e st = (if is_exception e then Inr (emit st (LogMessageError e)) else Inl (e, st))"

text \<open>The \<open>while\<close> loop of \<open>_handle_messages\<close>; returning is a \<open>break\<close> or the end of the
  loop.\<close>

fun read_loop :: "read list \<Rightarrow> client \<Rightarrow> result" where
  "read_loop [] st = Inr st"
| "read_loop (r # rs) st =
     (if connected st \<and> has_reader st then
        (case r of
           ReadFails e \<Rightarrow> loop_except e st
         | Garbage \<Rightarrow> loop_except UnicodeDecodeError st
         | Data raw \<Rightarrow>
             if raw = [] then Inr st
             else (case parse_message st (strip raw) of
                     Inl (e, st1) \<Rightarrow> loop_except e st1
                   | Inr st1 \<Rightarrow> read_loop rs st1))
      else Inr st)"

text \<open>\<open>AgentClient._handle_messages\<close>.\<close>

definition handle_messages :: "read list \<Rightarrow> client \<Rightarrow> result" where
  "handle_messages rs st =
     and_then (read_loop rs st)
       (\<lambda>st1. trigger (st1\<lparr>connected := False\<rparr>) ''disconnect'' NoArgs)"

text \<open>\<open>str(n)\<close> for a natural number.\<close>

fun str_nat :: "nat \<Rightarrow> string" where
  "str_nat n = (if n < 10 then [''0123456789'' ! n]
                else str_nat (n div 10) @ [''0123456789'' ! (n mod 10)])"

text \<open>\<open>AgentClient._authenticate_soul\<close>, with \<open>now\<close> for \<open>int(time.time())\<close>.\<close>

definition authenticate_soul :: "(string \<Rightarrow> string \<Rightarrow> string) \<Rightarrow> nat \<Rightarrow> soul \<Rightarrow> client \<Rightarrow> result" where
  "authenticate_soul hmac_hex now sl st =
     (let timestamp = str_nat now;
          auth_msg = ''AUTH:'' @ nick st @ '':'' @ timestamp;
          sg = sign hmac_hex sl auth_msg
      in and_then (send st (''SOUL '' @ soul_id sl))
           (\<lambda>st1. send st1 (''PRIVMSG NickServ :IDENTIFY '' @ soul_id sl @ '' '' @ sg)))"

text \<open>
  What the environment does at one connection attempt: \<open>open_connection\<close> raises, or
  it gives a reader and a writer; then the clock reads \<open>now\<close>, the writer takes as many
  sends as its budget says, and the reader delivers the listed reads.
\<close>

datatype session = Refused pyexc | Accepted nat "nat option" "read list"

text \<open>The \<open>try\<close> block of \<open>connect\<close>.\<close>

definition connect_try :: "(string \<Rightarrow> string \<Rightarrow> string) \<Rightarrow> session \<Rightarrow> client \<Rightarrow> result" where
  "connect_try hmac_hex s st =
     (let st0 = emit st OpenConnection
      in case s of
           Refused e \<Rightarrow> Inl (e, st0)
         | Accepted now budget rs \<Rightarrow>
             (let st1 = st0\<lparr>has_reader := True, writer := Some (Writer budget)\<rparr>
              in and_then (send st1 (''NICK '' @ nick st1)) (\<lambda>st2.
                 and_then (send st2 (''USER '' @ nick st2 @ '' 0 * :'' @ nick st2 @ '' Agent'')) (\<lambda>st3.
                 and_then (case soul st3 of
                             Some sl \<Rightarrow> authenticate_soul hmac_hex now sl st3
                           | None \<Rightarrow> Inr st3) (\<lambda>st4.
                 and_then (trigger (st4\<lparr>connected := True\<rparr>) ''connect'' NoArgs) (\<lambda>st5.
                 handle_messages rs st5))))))"

text \<open>
  How a call of \<open>connect\<close> ends: it returns, it raises, or it asks for a connection that
  the environment's script no longer describes.
\<close>

datatype run = Returned client | Raised pyexc client | ScriptEnded client

text \<open>\<open>AgentClient.connect\<close>, one session of the environment for each attempt.\<close>

fun connect :: "(string \<Rightarrow> string \<Rightarrow> string) \<Rightarrow> session list \<Rightarrow> client \<Rightarrow> run" where
  "connect hmac_hex [] st = ScriptEnded st"
| "connect hmac_hex (s # ss) st =
     (case connect_try hmac_hex s st of
        Inr st1 \<Rightarrow> Returned st1
      | Inl (e, st1) \<Rightarrow>
          if is_exception e then
            (case trigger ((emit st1 (LogConnectionError e))\<lparr>connected := False\<rparr>)
                    ''disconnect'' (ErrorArg e) of
               Inl (e2, st2) \<Rightarrow> Raised e2 st2
             | Inr st2 \<Rightarrow>
                 if auto_reconnect st2
                 then connect hmac_hex ss (emit (emit st2 LogReconnecting) (Sleep 5))
                 else Returned st2)
          else Raised e st1)"

text \<open>
  For stating results. \<open>handler_obs\<close> is what a dispatch to the handlers \<open>hs\<close> leaves in
  the trace: a call for each handler up to the first one that raises outside
  \<open>Exception\<close>, and a log record after each one that raised an \<open>Exception\<close>. \<open>escaping\<close> is
  that first raise outside \<open>Exception\<close>, if there is one.
\<close>

fun handler_obs :: "string \<Rightarrow> event_arg \<Rightarrow> handler list \<Rightarrow> obs list" where
  "handler_obs event arg [] = []"
| "handler_obs event arg (h # hs) =
     Called event (hname h) arg #
       (case hrun h arg of
          None \<Rightarrow> handler_obs event arg hs
        | Some e \<Rightarrow>
            if is_exception e then LogHandlerError event e # handler_obs event arg hs else [])"

fun escaping :: "event_arg \<Rightarrow> handler list \<Rightarrow> pyexc option" where
  "escaping arg [] = None"
| "escaping arg (h # hs) =
     (case hrun h arg of
        None \<Rightarrow> escaping arg hs
      | Some e \<Rightarrow> if is_exception e then escaping arg hs else Some e)"

declare str_split.simps [simp del]
declare str_nat.simps [simp del]

section \<open>Facts about the string operations\<close>

lemma startswith_append: "startswith (p @ rest) p"
  by (simp add: startswith_def)

lemma startswith_Cons_neq: "a \<noteq> c \<Longrightarrow> \<not> startswith (a # s) (c # p)"
  by (simp add: startswith_def)

lemma startswith_decomp: "startswith s p \<Longrightarrow> s = p @ drop (length p) s"
  unfolding startswith_def by (metis append_take_drop_id)

lemma str_find_Some_decomp:
  "str_find sep s = Some i \<Longrightarrow> s = take i s @ sep @ drop (i + length sep) s"
proof (induction s arbitrary: i)
  case Nil
  then show ?case by (simp split: if_splits)
next
  case (Cons c cs)
  show ?case
  proof (cases "startswith (c # cs) sep")
    case True
    with Cons.prems have "i = 0" by simp
    with startswith_decomp [OF True] show ?thesis by simp
  next
    case False
    with Cons.prems obtain k where k: "str_find sep cs = Some k" "i = Suc k" by auto
    from Cons.IH [OF k(1)] k(2) show ?thesis by simp
  qed
qed

lemma str_find_None_no_occurrence:
  "str_find sep s = None \<Longrightarrow> s \<noteq> pre @ sep @ post"
proof (induction s arbitrary: pre)
  case Nil
  then show ?case by (simp split: if_splits)
next
  case (Cons c cs)
  from Cons.prems have ns: "\<not> startswith (c # cs) sep" and n: "str_find sep cs = None"
    by (auto split: if_splits)
  show ?case
  proof (cases pre)
    case Nil
    with ns startswith_append [of sep post] show ?thesis by auto
  next
    case (Cons a pre')
    with Cons.IH [OF n, of pre'] show ?thesis by auto
  qed
qed

lemma contains_iff: "contains s sub \<longleftrightarrow> (\<exists>pre post. s = pre @ sub @ post)"
proof
  assume "contains s sub"
  then obtain i where "str_find sub s = Some i" by (auto simp: contains_def)
  from str_find_Some_decomp [OF this] show "\<exists>pre post. s = pre @ sub @ post" by blast
next
  assume "\<exists>pre post. s = pre @ sub @ post"
  then show "contains s sub"
    using str_find_None_no_occurrence [of sub s] by (auto simp: contains_def)
qed

lemma str_find_first:
  "c \<notin> set pre \<Longrightarrow> str_find (c # sep) (pre @ c # sep @ rest) = Some (length pre)"
proof (induction pre)
  case Nil
  have "startswith ((c # sep) @ rest) (c # sep)" by (rule startswith_append)
  then show ?case by simp
next
  case (Cons a pre)
  then have "a \<noteq> c" by auto
  with Cons show ?case by (simp add: startswith_Cons_neq)
qed

lemma str_find_absent: "c \<notin> set s \<Longrightarrow> str_find (c # sep) s = None"
  by (induction s) (auto simp: startswith_Cons_neq)

lemma str_split_n_three:
  assumes "CHR '' '' \<notin> set a" and "CHR '' '' \<notin> set b"
  shows "str_split_n '' '' 2 (a @ '' '' @ b @ '' '' @ rest) = [a, b, rest]"
proof -
  have 1: "str_find '' '' (a @ CHR '' '' # [] @ (b @ '' '' @ rest)) = Some (length a)"
    using assms(1) by (rule str_find_first)
  have 2: "str_find '' '' (b @ CHR '' '' # [] @ rest) = Some (length b)"
    using assms(2) by (rule str_find_first)
  have "str_split_n '' '' (Suc (Suc 0)) (a @ '' '' @ b @ '' '' @ rest) = [a, b, rest]"
    using 1 2 by simp
  then show ?thesis by (simp add: numeral_2_eq_2)
qed

lemma str_split_n_two:
  assumes "CHR '' '' \<notin> set a" and "CHR '' '' \<notin> set b"
  shows "str_split_n '' '' 2 (a @ '' '' @ b) = [a, b]"
proof -
  have 1: "str_find '' '' (a @ CHR '' '' # [] @ b) = Some (length a)"
    using assms(1) by (rule str_find_first)
  have 2: "str_find '' '' b = None"
    using assms(2) by (rule str_find_absent)
  have "str_split_n '' '' (Suc (Suc 0)) (a @ '' '' @ b) = [a, b]"
    using 1 2 by simp
  then show ?thesis by (simp add: numeral_2_eq_2)
qed

lemma str_split_nonempty: "str_split sep s \<noteq> []"
  by (subst str_split.simps) (simp split: option.split)

lemma getitem_0: "getitem xs 0 = (case xs of [] \<Rightarrow> Inl IndexError | x # _ \<Rightarrow> Inr x)"
  by (cases xs) (simp_all add: getitem_def)

lemma getitem_last: "xs \<noteq> [] \<Longrightarrow> getitem xs (- 1) = Inr (last xs)"
  by (cases xs rule: rev_cases) (simp_all add: getitem_def Let_def nth_append)

lemma str_find_char:
  "str_find [c] s = (if c \<in> set s then Some (length (takeWhile (\<lambda>x. x \<noteq> c) s)) else None)"
  by (induction s) (auto simp: startswith_def)

lemma source_nick_eq: "source_nick s = Inr (takeWhile (\<lambda>c. c \<noteq> CHR ''!'') s)"
proof (cases "CHR ''!'' \<in> set s")
  case True
  then have f: "str_find ''!'' s = Some (length (takeWhile (\<lambda>x. x \<noteq> CHR ''!'') s))"
    by (simp add: str_find_char)
  have "take (length (takeWhile (\<lambda>x. x \<noteq> CHR ''!'') s)) s = takeWhile (\<lambda>x. x \<noteq> CHR ''!'') s"
    by (metis append_eq_conv_conj takeWhile_dropWhile_id)
  with f show ?thesis
    by (simp add: source_nick_def contains_def getitem_0 str_split.simps [of "''!''" s])
next
  case False
  then have "str_find ''!'' s = None" by (simp add: str_find_char)
  moreover from False have tw: "takeWhile (\<lambda>c. c \<noteq> CHR ''!'') s = s"
    by (induction s) auto
  ultimately show ?thesis
    unfolding tw by (simp add: source_nick_def contains_def)
qed


lemma str_partition_absent: "\<not> contains s sep \<Longrightarrow> str_partition sep s = (s, [], [])"
  by (simp add: contains_def str_partition_def)

lemma str_partition_first:
  "CHR '' '' \<notin> set target \<Longrightarrow>
   str_partition '' :'' (target @ '' :'' @ rest) = (target, '' :'', rest)"
  using str_find_first [of "CHR '' ''" target "'':''" rest]
  by (simp add: str_partition_def)

lemma soul_match_at_tag:
  assumes "sid \<noteq> []" and "CHR '']'' \<notin> set sid"
  shows "soul_match_at (''[Soul:'' @ sid @ '']'' @ rest) = Some (sid, rest)"
proof -
  have t: "takeWhile (\<lambda>c. c \<noteq> CHR '']'') (sid @ CHR '']'' # rest) = sid"
    using assms(2) by (induction sid) auto
  have d: "dropWhile (\<lambda>c. c \<noteq> CHR '']'') (sid @ CHR '']'' # rest) = CHR '']'' # rest"
    using assms(2) by (induction sid) auto
  show ?thesis
    using assms(1) t d by (simp add: soul_match_at_def startswith_def)
qed

lemma soul_match_at_other: "c \<noteq> CHR ''['' \<Longrightarrow> soul_match_at (c # cs) = None"
  by (simp add: soul_match_at_def startswith_def)

lemma re_sub_soul_plain: "CHR ''['' \<notin> set a \<Longrightarrow> re_sub_soul (a @ b) = a @ re_sub_soul b"
  by (induction a) (auto simp: soul_match_at_other)

lemma re_sub_soul_sig:
  assumes "CHR ''['' \<notin> set sg"
  shows "re_sub_soul (''[Sig:'' @ sg @ ''...]'') = ''[Sig:'' @ sg @ ''...]''"
proof -
  have "soul_match_at (''[Sig:'' @ sg @ ''...]'') = None"
    by (simp add: soul_match_at_def startswith_def)
  moreover have "re_sub_soul ((''Sig:'' @ sg @ ''...]'') @ []) = (''Sig:'' @ sg @ ''...]'') @ re_sub_soul []"
    using assms by (intro re_sub_soul_plain) simp
  ultimately show ?thesis by simp
qed

lemma re_search_soul_tag:
  assumes "sid \<noteq> []" and "CHR '']'' \<notin> set sid"
  shows "re_search_soul (''[Soul:'' @ sid @ '']'' @ rest) = Some sid"
  using soul_match_at_tag [OF assms, of rest] by simp

lemma strip_bracketed:
  "strip (CHR '' '' # x @ '']'') = dropWhile isspace (x @ '']'')"
proof -
  have sp: "isspace (CHR '' '')" by (simp add: isspace_def)
  have nb: "\<not> isspace (CHR '']'')" by (simp add: isspace_def)
  obtain y where y: "dropWhile isspace (x @ '']'') = y @ '']''"
  proof (cases "\<forall>c\<in>set x. isspace c")
    case True
    then have "dropWhile isspace (x @ '']'') = [] @ '']''" using nb by (simp add: dropWhile_append3)
    then show ?thesis by (rule that)
  next
    case False
    then have "dropWhile isspace (x @ '']'') = dropWhile isspace x @ '']''"
      by (metis dropWhile_append1 dropWhile_append dropWhile_eq_Nil_conv)
    then show ?thesis by (rule that)
  qed
  have "strip (CHR '' '' # x @ '']'') = rev (dropWhile isspace (rev (y @ '']'')))"
    using sp y by (simp add: strip_def)
  also have "\<dots> = y @ '']''" using nb by simp
  finally show ?thesis using y by simp
qed

section \<open>Event dispatch\<close>

lemma trigger_loop_eq:
  "trigger_loop event arg hs st =
     (case escaping arg hs of
        None \<Rightarrow> Inr (st\<lparr>trace := trace st @ handler_obs event arg hs\<rparr>)
      | Some e \<Rightarrow> Inl (e, st\<lparr>trace := trace st @ handler_obs event arg hs\<rparr>))"
  by (induction hs arbitrary: st)
     (simp_all add: call_handler_def emit_def split: option.split)

lemma trigger_eq:
  "trigger st event arg =
     (case escaping arg (handlers_get st event) of
        None \<Rightarrow>
          Inr (st\<lparr>trace := trace st @ Fired event arg
                        # handler_obs event arg (handlers_get st event)\<rparr>)
      | Some e \<Rightarrow>
          Inl (e, st\<lparr>trace := trace st @ Fired event arg
                           # handler_obs event arg (handlers_get st event)\<rparr>))"
  by (simp add: trigger_def trigger_loop_eq emit_def handlers_get_def split: option.split)

lemma trigger_client:
  "client_of (trigger st event arg) =
     st\<lparr>trace := trace st @ Fired event arg # handler_obs event arg (handlers_get st event)\<rparr>"
  by (simp add: trigger_eq client_of_def split: option.split)

lemma escaping_not_exception: "escaping arg hs = Some e \<Longrightarrow> \<not> is_exception e"
  by (induction hs) (auto split: option.splits if_splits)

lemma trigger_raises: "trigger st event arg = Inl (e, st') \<Longrightarrow> \<not> is_exception e"
  by (auto simp: trigger_eq split: option.splits dest: escaping_not_exception)

lemma escaping_exceptions_only:
  "\<forall>h\<in>set hs. \<forall>e. hrun h arg = Some e \<longrightarrow> is_exception e \<Longrightarrow> escaping arg hs = None"
  by (induction hs) (auto split: option.splits)

lemma handler_obs_exceptions_only:
  "\<forall>h\<in>set hs. \<forall>e. hrun h arg = Some e \<longrightarrow> is_exception e \<Longrightarrow>
   handler_obs event arg hs =
     concat (map (\<lambda>h. Called event (hname h) arg #
                        (case hrun h arg of None \<Rightarrow> [] | Some e \<Rightarrow> [LogHandlerError event e])) hs)"
  by (induction hs) (auto split: option.splits)

lemma handlers_get_on:
  "handlers_get (on st event func) event' =
     (if event' = event then handlers_get st event @ [func] else handlers_get st event')"
  by (simp add: handlers_get_def on_def Let_def split: option.split)

text \<open>
  C9, as the code has it. Handlers are called in the order of their registration: \<open>on\<close>
  puts a handler after the ones already registered for its event, and a dispatch calls
  the registered handlers from first to last. When every raise of these handlers is an
  \<open>Exception\<close>, a handler that raises is followed by a log record and then by the
  remaining handlers, and the dispatch itself returns. In general the dispatch goes on
  in this way up to the first handler that raises outside \<open>Exception\<close>, and returns if
  there is none.
\<close>

theorem dispatch_in_registration_order:
  "handlers_get (on st event func) event' =
     (if event' = event then handlers_get st event @ [func] else handlers_get st event')
   \<and> ((\<forall>h\<in>set (handlers_get st event). \<forall>e. hrun h arg = Some e \<longrightarrow> is_exception e) \<longrightarrow>
        trigger st event arg =
          Inr (st\<lparr>trace := trace st @ Fired event arg #
                 concat (map (\<lambda>h. Called event (hname h) arg #
                                    (case hrun h arg of
                                       None \<Rightarrow> []
                                     | Some e \<Rightarrow> [LogHandlerError event e]))
                             (handlers_get st event))\<rparr>))
   \<and> trigger st event arg =
       (let st' = st\<lparr>trace := trace st @ Fired event arg
                             # handler_obs event arg (handlers_get st event)\<rparr>
        in case escaping arg (handlers_get st event) of
             None \<Rightarrow> Inr st'
           | Some e \<Rightarrow> Inl (e, st'))"
proof -
  have "(\<forall>h\<in>set (handlers_get st event). \<forall>e. hrun h arg = Some e \<longrightarrow> is_exception e) \<longrightarrow>
        trigger st event arg =
          Inr (st\<lparr>trace := trace st @ Fired event arg #
                 concat (map (\<lambda>h. Called event (hname h) arg #
                                    (case hrun h arg of
                                       None \<Rightarrow> []
                                     | Some e \<Rightarrow> [LogHandlerError event e]))
                             (handlers_get st event))\<rparr>)"
    by (simp add: trigger_eq escaping_exceptions_only handler_obs_exceptions_only)
  moreover have "trigger st event arg =
       (let st' = st\<lparr>trace := trace st @ Fired event arg
                             # handler_obs event arg (handlers_get st event)\<rparr>
        in case escaping arg (handlers_get st event) of
             None \<Rightarrow> Inr st'
           | Some e \<Rightarrow> Inl (e, st'))"
    by (simp add: trigger_eq Let_def)
  ultimately show ?thesis
    using handlers_get_on [of st event func event'] by (intro conjI)
qed

theorem dispatch_in_registration_order_witness:
  "trigger
      (on (on (on (init_client ''Bot'' None True)
         ''join'' \<lparr>hname = ''first'', hrun = (\<lambda>a. None)\<rparr>)
         ''join'' \<lparr>hname = ''second'', hrun = (\<lambda>a. Some (UserError ''boom''))\<rparr>)
         ''join'' \<lparr>hname = ''third'', hrun = (\<lambda>a. None)\<rparr>)
      ''join'' (ChannelNickArg ''#general'' ''Bot'')
   = Inr ((on (on (on (init_client ''Bot'' None True)
         ''join'' \<lparr>hname = ''first'', hrun = (\<lambda>a. None)\<rparr>)
         ''join'' \<lparr>hname = ''second'', hrun = (\<lambda>a. Some (UserError ''boom''))\<rparr>)
         ''join'' \<lparr>hname = ''third'', hrun = (\<lambda>a. None)\<rparr>)
       \<lparr>trace :=
          [Fired ''join'' (ChannelNickArg ''#general'' ''Bot''),
           Called ''join'' ''first'' (ChannelNickArg ''#general'' ''Bot''),
           Called ''join'' ''second'' (ChannelNickArg ''#general'' ''Bot''),
           LogHandlerError ''join'' (UserError ''boom''),
           Called ''join'' ''third'' (ChannelNickArg ''#general'' ''Bot'')]\<rparr>)"
proof -
  let ?c = "on (on (on (init_client ''Bot'' None True)
         ''join'' \<lparr>hname = ''first'', hrun = (\<lambda>a. None)\<rparr>)
         ''join'' \<lparr>hname = ''second'', hrun = (\<lambda>a. Some (UserError ''boom''))\<rparr>)
         ''join'' \<lparr>hname = ''third'', hrun = (\<lambda>a. None)\<rparr>"
  let ?a = "ChannelNickArg ''#general'' ''Bot''"
  have hs: "handlers_get ?c ''join'' =
      [\<lparr>hname = ''first'', hrun = (\<lambda>a. None)\<rparr>,
       \<lparr>hname = ''second'', hrun = (\<lambda>a. Some (UserError ''boom''))\<rparr>,
       \<lparr>hname = ''third'', hrun = (\<lambda>a. None)\<rparr>]"
    by (simp add: handlers_get_def on_def init_client_def)
  have ok: "\<forall>h\<in>set (handlers_get ?c ''join''). \<forall>e. hrun h ?a = Some e \<longrightarrow> is_exception e"
    unfolding hs by simp
  have t: "trace ?c = []" by (simp add: on_def init_client_def)
  note inst = dispatch_in_registration_order
    [of ?c "''join''" "\<lparr>hname = ''x'', hrun = (\<lambda>a. None)\<rparr>" "''join''" ?a]
  from inst [THEN conjunct2, THEN conjunct1, THEN mp, OF ok] show ?thesis
    unfolding hs t by simp
qed

text \<open>
  C9 as stated fails for a handler that raises outside \<open>Exception\<close>. With three handlers
  registered for \<open>join\<close>, the second calling \<open>sys.exit\<close>, the dispatch calls the first two
  and raises \<open>SystemExit\<close> to its caller: nothing is logged, and the third handler is not
  called.
\<close>

theorem dispatch_system_exit_counterexample:
  "trigger
      (on (on (on (init_client ''Bot'' None True)
         ''join'' \<lparr>hname = ''first'', hrun = (\<lambda>a. None)\<rparr>)
         ''join'' \<lparr>hname = ''second'', hrun = (\<lambda>a. Some SystemExit)\<rparr>)
         ''join'' \<lparr>hname = ''third'', hrun = (\<lambda>a. None)\<rparr>)
      ''join'' (ChannelNickArg ''#general'' ''Bot'')
   = Inl (SystemExit,
       (on (on (on (init_client ''Bot'' None True)
         ''join'' \<lparr>hname = ''first'', hrun = (\<lambda>a. None)\<rparr>)
         ''join'' \<lparr>hname = ''second'', hrun = (\<lambda>a. Some SystemExit)\<rparr>)
         ''join'' \<lparr>hname = ''third'', hrun = (\<lambda>a. None)\<rparr>)
       \<lparr>trace :=
          [Fired ''join'' (ChannelNickArg ''#general'' ''Bot''),
           Called ''join'' ''first'' (ChannelNickArg ''#general'' ''Bot''),
           Called ''join'' ''second'' (ChannelNickArg ''#general'' ''Bot'')]\<rparr>)"
  by (simp add: trigger_eq handlers_get_def on_def init_client_def)

section \<open>The shape of a parsed line\<close>

lemma not_ping: "startswith line '':'' \<Longrightarrow> \<not> startswith line ''PING''"
  by (cases line) (simp_all add: startswith_def)

lemma parse_message_prefixed:
  "parse_message st (CHR '':'' # rest) =
     (let parts = str_split_n '' '' 2 rest
      in if 2 \<le> length parts
         then dispatch_command st (takeWhile (\<lambda>c. c \<noteq> CHR ''!'') (parts ! 0)) (parts ! 1)
                (if 2 < length parts then parts ! 2 else [])
         else Inr st)"
  by (simp add: parse_message_def startswith_def source_nick_eq Let_def del: str_split_n.simps)

lemma parse_message_three:
  assumes "CHR '' '' \<notin> set source" and "CHR '' '' \<notin> set command"
  shows "parse_message st ('':'' @ source @ '' '' @ command @ '' '' @ params) =
           dispatch_command st (takeWhile (\<lambda>c. c \<noteq> CHR ''!'') source) command params"
  using str_split_n_three [OF assms, of params]
  by (simp add: parse_message_prefixed del: str_split_n.simps)

lemma parse_message_two:
  assumes "CHR '' '' \<notin> set source" and "CHR '' '' \<notin> set command"
  shows "parse_message st ('':'' @ source @ '' '' @ command) =
           dispatch_command st (takeWhile (\<lambda>c. c \<noteq> CHR ''!'') source) command []"
  using str_split_n_two [OF assms]
  by (simp add: parse_message_prefixed del: str_split_n.simps)

lemma privmsg_message_no_separator:
  "\<not> contains params '' :'' \<Longrightarrow>
   privmsg_message nk params =
     \<lparr> channel = params, m_nick = nk, content = [], m_soul_id = None, signature = None \<rparr>"
  by (simp add: privmsg_message_def str_partition_absent contains_def)


lemma parse_privmsg_line:
  assumes "CHR '' '' \<notin> set source"
  shows "parse_message st ('':'' @ source @ '' PRIVMSG '' @ params) =
           trigger st ''message''
             (MessageArg (privmsg_message (takeWhile (\<lambda>c. c \<noteq> CHR ''!'') source) params))"
proof -
  have "parse_message st ('':'' @ source @ '' '' @ ''PRIVMSG'' @ '' '' @ params) =
          dispatch_command st (takeWhile (\<lambda>c. c \<noteq> CHR ''!'') source) ''PRIVMSG'' params"
    using assms by (intro parse_message_three) simp_all
  then show ?thesis by (simp add: dispatch_command_def)
qed

section \<open>Parsing a soul-tagged message\<close>

lemma privmsg_message_alice:
  "privmsg_message ''Alice'' ''#general :hello [Soul:deadbeef] world'' =
     \<lparr> channel = ''#general'', m_nick = ''Alice'', content = ''hello  world'',
       m_soul_id = Some ''deadbeef'', signature = None \<rparr>"
  by code_simp

text \<open>
  C5. Whatever the state of the client, parsing the line
  \<open>:Alice!u@h PRIVMSG #general :hello [Soul:deadbeef] world\<close> appends to the trace the
  \<open>message\<close> event with the message of channel \<open>#general\<close>, nick \<open>Alice\<close>, soul id
  \<open>deadbeef\<close> and content \<open>hello  world\<close> (two spaces between the words), followed by
  the calls of the handlers registered for \<open>message\<close> with that message, and changes
  nothing else. The parse returns, unless one of these handlers raises outside
  \<open>Exception\<close>.
\<close>

theorem parse_soul_tagged_privmsg:
  "parse_message st '':Alice!u@h PRIVMSG #general :hello [Soul:deadbeef] world'' =
     (let m = MessageArg \<lparr> channel = ''#general'', m_nick = ''Alice'',
                           content = ''hello  world'', m_soul_id = Some ''deadbeef'',
                           signature = None \<rparr>;
          st' = st\<lparr>trace := trace st @ Fired ''message'' m
                            # handler_obs ''message'' m (handlers_get st ''message'')\<rparr>
      in case escaping m (handlers_get st ''message'') of
           None \<Rightarrow> Inr st'
         | Some e \<Rightarrow> Inl (e, st'))"
proof -
  have "parse_message st ('':'' @ ''Alice!u@h'' @ '' PRIVMSG '' @ ''#general :hello [Soul:deadbeef] world'') =
          trigger st ''message''
            (MessageArg (privmsg_message (takeWhile (\<lambda>c. c \<noteq> CHR ''!'') ''Alice!u@h'')
               ''#general :hello [Soul:deadbeef] world''))"
    by (rule parse_privmsg_line) simp
  then show ?thesis
    by (simp add: privmsg_message_alice trigger_eq Let_def)
qed

theorem parse_soul_tagged_privmsg_witness:
  "parse_message
     (on (init_client ''Bot'' None True) ''message'' \<lparr>hname = ''reader'', hrun = (\<lambda>a. None)\<rparr>)
     '':Alice!u@h PRIVMSG #general :hello [Soul:deadbeef] world'' =
   Inr ((on (init_client ''Bot'' None True) ''message'' \<lparr>hname = ''reader'', hrun = (\<lambda>a. None)\<rparr>)
     \<lparr>trace :=
        [Fired ''message''
           (MessageArg \<lparr> channel = ''#general'', m_nick = ''Alice'',
                         content = ''hello  world'', m_soul_id = Some ''deadbeef'',
                         signature = None \<rparr>),
         Called ''message'' ''reader''
           (MessageArg \<lparr> channel = ''#general'', m_nick = ''Alice'',
                         content = ''hello  world'', m_soul_id = Some ''deadbeef'',
                         signature = None \<rparr>)]\<rparr>)"
  using parse_soul_tagged_privmsg
    [of "on (init_client ''Bot'' None True) ''message'' \<lparr>hname = ''reader'', hrun = (\<lambda>a. None)\<rparr>"]
  by (simp add: handlers_get_def on_def init_client_def Let_def)

section \<open>A PRIVMSG without separator\<close>

text \<open>What holds for every such line: it is not dropped. The \<open>message\<close> event is in
  the trace, with empty content and with all of the params as channel.\<close>

lemma privmsg_without_separator:
  assumes "CHR '' '' \<notin> set source" and "\<not> contains params '' :''"
  shows "client_of (parse_message st ('':'' @ source @ '' PRIVMSG '' @ params)) =
           st\<lparr>trace := trace st @
               Fired ''message''
                 (MessageArg \<lparr> channel = params, m_nick = takeWhile (\<lambda>c. c \<noteq> CHR ''!'') source,
                               content = [], m_soul_id = None, signature = None \<rparr>)
               # handler_obs ''message''
                   (MessageArg \<lparr> channel = params, m_nick = takeWhile (\<lambda>c. c \<noteq> CHR ''!'') source,
                                 content = [], m_soul_id = None, signature = None \<rparr>)
                   (handlers_get st ''message'')\<rparr>"
  unfolding parse_privmsg_line [OF assms(1)] privmsg_message_no_separator [OF assms(2)]
  by (rule trigger_client)

lemma first_token_general_hello: "getitem (split_ws ''#general hello'') 0 = Inr ''#general''"
  by code_simp

lemma part_general_hello:
  "parse_message st '':Alice!u@h PART #general hello'' =
     trigger (if ''Alice'' = nick st then st\<lparr>channels := channels st - {''#general''}\<rparr> else st)
       ''part'' (ChannelNickArg ''#general'' ''Alice'')"
proof -
  have "parse_message st ('':'' @ ''Alice!u@h'' @ '' '' @ ''PART'' @ '' '' @ ''#general hello'') =
          dispatch_command st (takeWhile (\<lambda>c. c \<noteq> CHR ''!'') ''Alice!u@h'') ''PART'' ''#general hello''"
    by (rule parse_message_three) simp_all
  then show ?thesis
    by (simp add: dispatch_command_def first_token_general_hello)
qed

text \<open>
  C7 at the line \<open>:Alice!u@h PRIVMSG #general hello\<close>, for every state of the client.
  The line is not dropped and the content of its message is empty, but the message is
  addressed to \<open>#general hello\<close>, all of the params, while their first
  whitespace-delimited token is \<open>#general\<close>. The \<open>PART\<close> branch, given the same params,
  does take the first token: its event carries the channel \<open>#general\<close>.
\<close>

theorem privmsg_target_is_whole_params:
  "client_of (parse_message st '':Alice!u@h PRIVMSG #general hello'') =
     st\<lparr>trace := trace st @
         Fired ''message''
           (MessageArg \<lparr> channel = ''#general hello'', m_nick = ''Alice'', content = [],
                         m_soul_id = None, signature = None \<rparr>)
         # handler_obs ''message''
             (MessageArg \<lparr> channel = ''#general hello'', m_nick = ''Alice'', content = [],
                           m_soul_id = None, signature = None \<rparr>)
             (handlers_get st ''message'')\<rparr>
   \<and> getitem (split_ws ''#general hello'') 0 = Inr ''#general''
   \<and> trace (client_of (parse_message (init_client ''Bot'' None True)
        '':Alice!u@h PRIVMSG #general hello'')) =
       [Fired ''message''
          (MessageArg \<lparr> channel = ''#general hello'', m_nick = ''Alice'', content = [],
                        m_soul_id = None, signature = None \<rparr>)]
   \<and> trace (client_of (parse_message (init_client ''Bot'' None True)
        '':Alice!u@h PART #general hello'')) =
       [Fired ''part'' (ChannelNickArg ''#general'' ''Alice'')]"
proof -
  have n: "\<not> contains ''#general hello'' '' :''" by code_simp
  have a: "client_of (parse_message st ('':'' @ ''Alice!u@h'' @ '' PRIVMSG '' @ ''#general hello'')) =
     st\<lparr>trace := trace st @
         Fired ''message''
           (MessageArg \<lparr> channel = ''#general hello'',
                         m_nick = takeWhile (\<lambda>c. c \<noteq> CHR ''!'') ''Alice!u@h'', content = [],
                         m_soul_id = None, signature = None \<rparr>)
         # handler_obs ''message''
             (MessageArg \<lparr> channel = ''#general hello'',
                           m_nick = takeWhile (\<lambda>c. c \<noteq> CHR ''!'') ''Alice!u@h'', content = [],
                           m_soul_id = None, signature = None \<rparr>)
             (handlers_get st ''message'')\<rparr>"
    by (rule privmsg_without_separator [OF _ n]) simp
  have b: "trace (client_of (parse_message (init_client ''Bot'' None True)
        '':Alice!u@h PRIVMSG #general hello'')) =
       [Fired ''message''
          (MessageArg \<lparr> channel = ''#general hello'', m_nick = ''Alice'', content = [],
                        m_soul_id = None, signature = None \<rparr>)]"
    by code_simp
  have c: "trace (client_of (parse_message (init_client ''Bot'' None True)
        '':Alice!u@h PART #general hello'')) =
       [Fired ''part'' (ChannelNickArg ''#general'' ''Alice'')]"
    by code_simp
  from a b c first_token_general_hello show ?thesis by simp
qed

section \<open>Soul tag and signature annotation\<close>

lemma privmsg_message_signed:
  assumes "CHR '' '' \<notin> set target" and "sid \<noteq> []" and "CHR '']'' \<notin> set sid"
    and "CHR ''['' \<notin> set msg" and "CHR ''['' \<notin> set sg"
  shows "privmsg_message nk (target @ '' :[Soul:'' @ sid @ ''] '' @ msg @ '' [Sig:'' @ sg @ ''...]'') =
           \<lparr> channel = target, m_nick = nk,
             content = dropWhile isspace (msg @ '' [Sig:'' @ sg @ ''...]''),
             m_soul_id = Some sid, signature = None \<rparr>"
proof -
  let ?rest = "'' '' @ msg @ '' [Sig:'' @ sg @ ''...]''"
  let ?content0 = "''[Soul:'' @ sid @ '']'' @ ?rest"
  have p: "str_partition '' :'' (target @ '' :'' @ ?content0) = (target, '' :'', ?content0)"
    using assms(1) by (rule str_partition_first)
  have c: "contains ?content0 ''[Soul:''"
    by (simp add: contains_def startswith_def)
  have s: "re_search_soul ?content0 = Some sid"
    using assms(2,3) by (rule re_search_soul_tag)
  have m: "soul_match_at ?content0 = Some (sid, ?rest)"
    using assms(2,3) by (rule soul_match_at_tag)
  have "re_sub_soul ?content0 = re_sub_soul ?rest"
    using m by simp
  also have "\<dots> = re_sub_soul (('' '' @ msg @ '' '') @ (''[Sig:'' @ sg @ ''...]''))"
    by simp
  also have "\<dots> = ('' '' @ msg @ '' '') @ re_sub_soul (''[Sig:'' @ sg @ ''...]'')"
    using assms(4) by (intro re_sub_soul_plain) simp
  also have "\<dots> = ('' '' @ msg @ '' '') @ (''[Sig:'' @ sg @ ''...]'')"
    by (simp only: re_sub_soul_sig [OF assms(5)])
  finally have r: "re_sub_soul ?content0 = CHR '' '' # (msg @ '' [Sig:'' @ sg @ ''...'') @ '']''"
    by simp
  have "strip (re_sub_soul ?content0) = dropWhile isspace ((msg @ '' [Sig:'' @ sg @ ''...'') @ '']'')"
    unfolding r by (rule strip_bracketed)
  then have st: "strip (re_sub_soul ?content0) = dropWhile isspace (msg @ '' [Sig:'' @ sg @ ''...]'')"
    by simp
  have "privmsg_message nk (target @ '' :'' @ ?content0) =
           \<lparr> channel = target, m_nick = nk,
             content = dropWhile isspace (msg @ '' [Sig:'' @ sg @ ''...]''),
             m_soul_id = Some sid, signature = None \<rparr>"
    unfolding privmsg_message_def p using c s st by (simp del: re_sub_soul.simps re_search_soul.simps)
  then show ?thesis by simp
qed


lemma say_signed_line:
  "soul sender = Some sl \<Longrightarrow>
   tasks (say hmac_hex sender target msg True) =
     tasks sender @ [''PRIVMSG '' @ target @ '' :[Soul:'' @ soul_id sl @ ''] '' @ msg
                       @ '' [Sig:'' @ take 16 (sign hmac_hex sl msg) @ ''...]'']"
  by (simp add: say_def create_task_send_def)

text \<open>What holds for every line of the form that \<open>say\<close> sends with \<open>sign=True\<close> (the
  tag's id non-empty and without \<open>]\<close>, no \<open>[\<close> in the body or in the annotation's
  digits): the soul tag is removed, the annotation is not.\<close>

lemma signed_privmsg_keeps_annotation:
  assumes "CHR '' '' \<notin> set source" and "CHR '' '' \<notin> set target"
    and "sid \<noteq> []" and "CHR '']'' \<notin> set sid"
    and "CHR ''['' \<notin> set msg" and "CHR ''['' \<notin> set sg"
  shows "client_of (parse_message st
           ('':'' @ source @ '' PRIVMSG '' @ target @ '' :[Soul:'' @ sid @ ''] '' @ msg
              @ '' [Sig:'' @ sg @ ''...]'')) =
         st\<lparr>trace := trace st @
             Fired ''message''
               (MessageArg \<lparr> channel = target, m_nick = takeWhile (\<lambda>c. c \<noteq> CHR ''!'') source,
                             content = dropWhile isspace (msg @ '' [Sig:'' @ sg @ ''...]''),
                             m_soul_id = Some sid, signature = None \<rparr>)
             # handler_obs ''message''
                 (MessageArg \<lparr> channel = target, m_nick = takeWhile (\<lambda>c. c \<noteq> CHR ''!'') source,
                               content = dropWhile isspace (msg @ '' [Sig:'' @ sg @ ''...]''),
                               m_soul_id = Some sid, signature = None \<rparr>)
                 (handlers_get st ''message'')\<rparr>"
  using parse_privmsg_line [OF assms(1), of st
      "target @ '' :[Soul:'' @ sid @ ''] '' @ msg @ '' [Sig:'' @ sg @ ''...]''"]
    privmsg_message_signed [OF assms(2-6)]
  by (simp add: trigger_client)

lemma privmsg_message_signed_first:
  "privmsg_message ''Alice'' ''#general :[Soul:deadbeef] hello [Sig:0123456789abcdef...]'' =
     \<lparr> channel = ''#general'', m_nick = ''Alice'',
       content = ''hello [Sig:0123456789abcdef...]'',
       m_soul_id = Some ''deadbeef'', signature = None \<rparr>"
  by code_simp

lemma privmsg_message_signed_middle:
  "privmsg_message ''Alice'' ''#general :hello [Soul:deadbeef] world [Sig:0123456789abcdef...]'' =
     \<lparr> channel = ''#general'', m_nick = ''Alice'',
       content = ''hello  world [Sig:0123456789abcdef...]'',
       m_soul_id = Some ''deadbeef'', signature = None \<rparr>"
  by code_simp

text \<open>
  C6 at two lines with a soul tag and a trailing signature annotation, for every state of
  the client: the line that \<open>say\<close> sends for the body \<open>hello\<close>, and a line with the tag
  inside the body. In both the message of the \<open>message\<close> event carries the soul id, and
  its content has lost the tag but still ends with the annotation
  \<open>[Sig:0123456789abcdef...]\<close>.
\<close>

theorem signature_annotation_stays_in_content:
  "client_of (parse_message st
      '':Alice!u@h PRIVMSG #general :[Soul:deadbeef] hello [Sig:0123456789abcdef...]'') =
     st\<lparr>trace := trace st @
         Fired ''message''
           (MessageArg \<lparr> channel = ''#general'', m_nick = ''Alice'',
                         content = ''hello [Sig:0123456789abcdef...]'',
                         m_soul_id = Some ''deadbeef'', signature = None \<rparr>)
         # handler_obs ''message''
             (MessageArg \<lparr> channel = ''#general'', m_nick = ''Alice'',
                           content = ''hello [Sig:0123456789abcdef...]'',
                           m_soul_id = Some ''deadbeef'', signature = None \<rparr>)
             (handlers_get st ''message'')\<rparr>
   \<and> client_of (parse_message st
      '':Alice!u@h PRIVMSG #general :hello [Soul:deadbeef] world [Sig:0123456789abcdef...]'') =
     st\<lparr>trace := trace st @
         Fired ''message''
           (MessageArg \<lparr> channel = ''#general'', m_nick = ''Alice'',
                         content = ''hello  world [Sig:0123456789abcdef...]'',
                         m_soul_id = Some ''deadbeef'', signature = None \<rparr>)
         # handler_obs ''message''
             (MessageArg \<lparr> channel = ''#general'', m_nick = ''Alice'',
                           content = ''hello  world [Sig:0123456789abcdef...]'',
                           m_soul_id = Some ''deadbeef'', signature = None \<rparr>)
             (handlers_get st ''message'')\<rparr>
   \<and> trace (client_of (parse_message (init_client ''Bot'' None True)
      '':Alice!u@h PRIVMSG #general :[Soul:deadbeef] hello [Sig:0123456789abcdef...]'')) =
     [Fired ''message''
        (MessageArg \<lparr> channel = ''#general'', m_nick = ''Alice'',
                      content = ''hello [Sig:0123456789abcdef...]'',
                      m_soul_id = Some ''deadbeef'', signature = None \<rparr>)]"
proof -
  have 1: "parse_message st ('':'' @ ''Alice!u@h'' @ '' PRIVMSG '' @
             ''#general :[Soul:deadbeef] hello [Sig:0123456789abcdef...]'') =
          trigger st ''message''
            (MessageArg (privmsg_message (takeWhile (\<lambda>c. c \<noteq> CHR ''!'') ''Alice!u@h'')
               ''#general :[Soul:deadbeef] hello [Sig:0123456789abcdef...]''))"
    by (rule parse_privmsg_line) simp
  have 2: "parse_message st ('':'' @ ''Alice!u@h'' @ '' PRIVMSG '' @
             ''#general :hello [Soul:deadbeef] world [Sig:0123456789abcdef...]'') =
          trigger st ''message''
            (MessageArg (privmsg_message (takeWhile (\<lambda>c. c \<noteq> CHR ''!'') ''Alice!u@h'')
               ''#general :hello [Soul:deadbeef] world [Sig:0123456789abcdef...]''))"
    by (rule parse_privmsg_line) simp
  have 3: "trace (client_of (parse_message (init_client ''Bot'' None True)
      '':Alice!u@h PRIVMSG #general :[Soul:deadbeef] hello [Sig:0123456789abcdef...]'')) =
     [Fired ''message''
        (MessageArg \<lparr> channel = ''#general'', m_nick = ''Alice'',
                      content = ''hello [Sig:0123456789abcdef...]'',
                      m_soul_id = Some ''deadbeef'', signature = None \<rparr>)]"
    by code_simp
  from 1 2 3 show ?thesis
    by (simp add: privmsg_message_signed_first privmsg_message_signed_middle trigger_client)
qed

section \<open>PING\<close>

lemma send_ok:
  assumes "writer st = Some (Writer budget)" and "budget \<noteq> Some 0"
  shows "send st msg =
           Inr (emit (st\<lparr>writer := Some (Writer (map_option (\<lambda>n. n - 1) budget))\<rparr>)
                  (Wrote (msg @ crlf)))"
proof (cases budget)
  case None
  with assms(1) show ?thesis by (cases st) (simp add: send_def emit_def)
next
  case (Some n)
  with assms(2) obtain k where "n = Suc k" by (cases n) auto
  with Some assms(1) show ?thesis by (simp add: send_def)
qed

text \<open>
  C4, as the code has it. A line that starts with \<open>PING\<close> is answered with \<open>PONG\<close>, a
  space, and the line from its sixth character on, so \<open>PING :abc123\<close> is answered with
  \<open>PONG :abc123\<close>, the colon included. The answer is written, when the writer takes it,
  before the read loop goes on to the next read, and no event is triggered.
\<close>

theorem ping_answered_before_next_line:
  assumes "startswith line ''PING''"
    and "writer st = Some (Writer budget)" and "budget \<noteq> Some 0"
  shows "parse_message st line =
           Inr (emit (st\<lparr>writer := Some (Writer (map_option (\<lambda>n. n - 1) budget))\<rparr>)
                  (Wrote (''PONG '' @ drop 5 line @ crlf)))
       \<and> (connected st \<and> has_reader st \<and> raw \<noteq> [] \<and> strip raw = line \<longrightarrow>
            read_loop (Data raw # rs) st =
              read_loop rs
                (emit (st\<lparr>writer := Some (Writer (map_option (\<lambda>n. n - 1) budget))\<rparr>)
                   (Wrote (''PONG '' @ drop 5 line @ crlf))))"
proof -
  have p: "parse_message st line =
           Inr (emit (st\<lparr>writer := Some (Writer (map_option (\<lambda>n. n - 1) budget))\<rparr>)
                  (Wrote (''PONG '' @ drop 5 line @ crlf)))"
    using assms(1) send_ok [OF assms(2,3), of "''PONG '' @ drop 5 line"]
    by (simp add: parse_message_def)
  then show ?thesis by auto
qed

theorem ping_answered_before_next_line_witness:
  "trace (client_of (parse_message
      ((init_client ''Bot'' None True)
         \<lparr>has_reader := True, writer := Some (Writer None), connected := True\<rparr>)
      ''PING :abc123'')) = [Wrote (''PONG :abc123'' @ crlf)]
   \<and> trace (client_of
       (read_loop [Data (''PING :abc123'' @ crlf), Data ('':Carol!u@h QUIT :bye'' @ crlf)]
          ((init_client ''Bot'' None True)
             \<lparr>has_reader := True, writer := Some (Writer None), connected := True\<rparr>))) =
     [Wrote (''PONG :abc123'' @ crlf), Fired ''quit'' (NickArg ''Carol'')]"
proof -
  let ?c = "(init_client ''Bot'' None True)
         \<lparr>has_reader := True, writer := Some (Writer None), connected := True\<rparr>"
  have s: "startswith ''PING :abc123'' ''PING''" by code_simp
  have w: "writer ?c = Some (Writer None)" by simp
  have b: "(None :: nat option) \<noteq> Some 0" by simp
  have h: "connected ?c \<and> has_reader ?c \<and> ''PING :abc123'' @ crlf \<noteq> []
             \<and> strip (''PING :abc123'' @ crlf) = ''PING :abc123''"
    by code_simp
  have d: "''PONG '' @ drop 5 ''PING :abc123'' = ''PONG :abc123''" by simp
  have q: "trace (client_of (read_loop [Data ('':Carol!u@h QUIT :bye'' @ crlf)]
             (emit ?c (Wrote (''PONG :abc123'' @ crlf))))) =
           [Wrote (''PONG :abc123'' @ crlf), Fired ''quit'' (NickArg ''Carol'')]"
    by code_simp
  have u: "?c\<lparr>writer := Some (Writer None)\<rparr> = ?c" by simp
  from ping_answered_before_next_line [OF s w b,
      of "''PING :abc123'' @ crlf" "[Data ('':Carol!u@h QUIT :bye'' @ crlf)]"] h q
  show ?thesis
    unfolding d by (simp add: client_of_def emit_def init_client_def)
qed

text \<open>C4 as stated fails: the answer to \<open>PING :abc123\<close> is \<open>PONG :abc123\<close>, not
  \<open>PONG abc123\<close>.\<close>

theorem pong_payload_counterexample:
  "map_sum fst trace
     (parse_message
        ((init_client ''Bot'' None True)
           \<lparr>has_reader := True, writer := Some (Writer None), connected := True\<rparr>)
        ''PING :abc123'') = Inr [Wrote (''PONG :abc123'' @ crlf)]
   \<and> map_sum fst trace
     (parse_message
        ((init_client ''Bot'' None True)
           \<lparr>has_reader := True, writer := Some (Writer None), connected := True\<rparr>)
        ''PING :abc123'') \<noteq> Inr [Wrote (''PONG abc123'' @ crlf)]"
  by code_simp

section \<open>What parsing changes\<close>

lemma handler_obs_mem:
  "ob \<in> set (handler_obs event arg hs) \<Longrightarrow>
   (\<exists>n. ob = Called event n arg) \<or> (\<exists>e. ob = LogHandlerError event e)"
  by (induction hs) (auto split: option.splits if_splits)

lemma send_trace:
  "trace (client_of (send st msg)) = trace st \<or>
   trace (client_of (send st msg)) = trace st @ [Wrote (msg @ crlf)]"
proof (cases "writer st")
  case None
  then show ?thesis by (simp add: send_def client_of_def)
next
  case (Some w)
  obtain b where w: "w = Writer b" by (cases w)
  show ?thesis
  proof (cases b)
    case None
    with Some w show ?thesis by (simp add: send_def client_of_def emit_def)
  next
    case (Some n)
    with \<open>writer st = Some w\<close> w show ?thesis
      by (cases n) (simp_all add: send_def client_of_def emit_def)
  qed
qed

lemma send_channels: "channels (client_of (send st msg)) = channels st"
proof (cases "writer st")
  case None
  then show ?thesis by (simp add: send_def client_of_def)
next
  case (Some w)
  obtain b where w: "w = Writer b" by (cases w)
  show ?thesis
  proof (cases b)
    case None
    with Some w show ?thesis by (simp add: send_def client_of_def emit_def)
  next
    case (Some n)
    with \<open>writer st = Some w\<close> w show ?thesis
      by (cases n) (simp_all add: send_def client_of_def emit_def)
  qed
qed

lemma dispatch_command_trace:
  "\<exists>new. trace (client_of (dispatch_command st nk command params)) = trace st @ new
     \<and> (\<forall>ev h m. Fired ev (MessageArg m) \<in> set new \<or> Called ev h (MessageArg m) \<in> set new
            \<longrightarrow> m = privmsg_message nk params)"
proof -
  have t: "\<And>s ev a. \<exists>new. trace (client_of (trigger s ev a)) = trace s @ new
              \<and> (\<forall>e h m. Fired e (MessageArg m) \<in> set new \<or> Called e h (MessageArg m) \<in> set new
                    \<longrightarrow> a = MessageArg m)"
    by (auto simp: trigger_client dest: handler_obs_mem)
  have n: "\<exists>new. trace st = trace st @ new
              \<and> (\<forall>ev h m. Fired ev (MessageArg m) \<in> set new \<or> Called ev h (MessageArg m) \<in> set new
                    \<longrightarrow> m = privmsg_message nk params)"
    by (rule exI [of _ "[]"]) simp
  consider (privmsg) "command = ''PRIVMSG''" | (join) "command = ''JOIN''"
    | (part) "command = ''PART''" | (quit) "command = ''QUIT''"
    | (other) "command \<noteq> ''PRIVMSG''" "command \<noteq> ''JOIN''" "command \<noteq> ''PART''" "command \<noteq> ''QUIT''"
    by blast
  then show ?thesis
  proof cases
    case privmsg
    with t [of st "''message''" "MessageArg (privmsg_message nk params)"] show ?thesis
      by (simp add: dispatch_command_def) blast
  next
    case join
    have "getitem (str_split '' :'' params) (- 1) = Inr (last (str_split '' :'' params))"
      by (rule getitem_last) (rule str_split_nonempty)
    with join
      t [of "if nk = nick st then st\<lparr>channels := insert (last (str_split '' :'' params)) (channels st)\<rparr> else st"
           "''join''" "ChannelNickArg (last (str_split '' :'' params)) nk"]
    show ?thesis
      by (cases "nk = nick st") (simp_all add: dispatch_command_def, blast+)
  next
    case part
    show ?thesis
    proof (cases "split_ws params")
      case Nil
      with part n show ?thesis by (simp add: dispatch_command_def getitem_0 client_of_def)
    next
      case (Cons chan rest)
      with part t [of "if nk = nick st then st\<lparr>channels := channels st - {chan}\<rparr> else st"
           "''part''" "ChannelNickArg chan nk"]
      show ?thesis
        by (cases "nk = nick st") (simp_all add: dispatch_command_def getitem_0, blast+)
    qed
  next
    case quit
    with t [of st "''quit''" "NickArg nk"] show ?thesis
      by (simp add: dispatch_command_def) blast
  next
    case other
    with n show ?thesis by (simp add: dispatch_command_def client_of_def)
  qed
qed

lemma privmsg_message_signature: "signature (privmsg_message nk params) = None"
  by (simp add: privmsg_message_def split: prod.split option.split)


lemma starts_with_colon: "startswith line '':'' \<longleftrightarrow> (\<exists>rest. line = CHR '':'' # rest)"
  by (cases line) (auto simp: startswith_def)

lemma parse_message_other:
  "\<not> startswith line ''PING'' \<Longrightarrow> \<not> startswith line '':'' \<Longrightarrow> parse_message st line = Inr st"
  by (simp add: parse_message_def)

lemma parse_message_ping:
  "startswith line ''PING'' \<Longrightarrow> parse_message st line = send st (''PONG '' @ drop 5 line)"
  by (simp add: parse_message_def)

text \<open>
  C10. Whatever the line and the state of the client, every message that parsing hands
  to the \<open>message\<close> event and to its handlers has no signature, and so is not verified.
\<close>

theorem received_messages_unsigned:
  "\<exists>new. trace (client_of (parse_message st line)) = trace st @ new
     \<and> (\<forall>ev h m. Fired ev (MessageArg m) \<in> set new \<or> Called ev h (MessageArg m) \<in> set new
            \<longrightarrow> signature m = None \<and> \<not> is_verified m)"
proof -
  let ?ok = "\<lambda>new. \<forall>ev h m. Fired ev (MessageArg m) \<in> set new \<or> Called ev h (MessageArg m) \<in> set new
            \<longrightarrow> signature m = None \<and> \<not> is_verified m"
  consider (ping) "startswith line ''PING''"
    | (prefixed) rest where "line = CHR '':'' # rest"
    | (other) "\<not> startswith line ''PING''" "\<not> startswith line '':''"
    using starts_with_colon by blast
  then show ?thesis
  proof cases
    case ping
    from send_trace [of st "''PONG '' @ drop 5 line"]
    have "trace (client_of (parse_message st line)) = trace st @ []
        \<or> trace (client_of (parse_message st line)) = trace st @ [Wrote ((''PONG '' @ drop 5 line) @ crlf)]"
      by (simp add: parse_message_ping [OF ping])
    moreover have "?ok []" "?ok [Wrote ((''PONG '' @ drop 5 line) @ crlf)]" by simp_all
    ultimately show ?thesis by blast
  next
    case prefixed
    let ?parts = "str_split_n '' '' 2 rest"
    show ?thesis
    proof (cases "2 \<le> length ?parts")
      case True
      let ?nk = "takeWhile (\<lambda>c. c \<noteq> CHR ''!'') (?parts ! 0)"
      let ?params = "if 2 < length ?parts then ?parts ! 2 else []"
      from True have "parse_message st line = dispatch_command st ?nk (?parts ! 1) ?params"
        unfolding prefixed parse_message_prefixed by (simp add: Let_def del: str_split_n.simps)
      moreover obtain new where
        n: "trace (client_of (dispatch_command st ?nk (?parts ! 1) ?params)) = trace st @ new"
        and u: "\<forall>ev h m. Fired ev (MessageArg m) \<in> set new \<or> Called ev h (MessageArg m) \<in> set new
            \<longrightarrow> m = privmsg_message ?nk ?params"
        using dispatch_command_trace by blast
      have "?ok new"
      proof (intro allI impI)
        fix ev h m
        assume "Fired ev (MessageArg m) \<in> set new \<or> Called ev h (MessageArg m) \<in> set new"
        with u have "m = privmsg_message ?nk ?params" by blast
        then show "signature m = None \<and> \<not> is_verified m"
          by (simp add: privmsg_message_signature is_verified_def)
      qed
      ultimately have "trace (client_of (parse_message st line)) = trace st @ new \<and> ?ok new"
        using n by simp
      then show ?thesis by blast
    next
      case False
      then have "parse_message st line = Inr st"
        unfolding prefixed parse_message_prefixed by (simp add: Let_def del: str_split_n.simps)
      then have "trace (client_of (parse_message st line)) = trace st @ [] \<and> ?ok []"
        by (simp add: client_of_def)
      then show ?thesis by blast
    qed
  next
    case other
    then have "trace (client_of (parse_message st line)) = trace st @ [] \<and> ?ok []"
      by (simp add: parse_message_other client_of_def)
    then show ?thesis by blast
  qed
qed

theorem received_messages_unsigned_witness:
  "trace (client_of (parse_message (init_client ''Bot'' None True)
      '':Alice!u@h PRIVMSG #general :[Soul:deadbeef] hello [Sig:0123456789abcdef...]'')) =
     [Fired ''message''
        (MessageArg \<lparr> channel = ''#general'', m_nick = ''Alice'',
                      content = ''hello [Sig:0123456789abcdef...]'',
                      m_soul_id = Some ''deadbeef'', signature = None \<rparr>)]
   \<and> \<not> is_verified \<lparr> channel = ''#general'', m_nick = ''Alice'',
                      content = ''hello [Sig:0123456789abcdef...]'',
                      m_soul_id = Some ''deadbeef'', signature = None \<rparr>"
proof -
  let ?c = "init_client ''Bot'' None True"
  let ?l = "'':Alice!u@h PRIVMSG #general :[Soul:deadbeef] hello [Sig:0123456789abcdef...]''"
  let ?m = "\<lparr> channel = ''#general'', m_nick = ''Alice'',
              content = ''hello [Sig:0123456789abcdef...]'',
              m_soul_id = Some ''deadbeef'', signature = None \<rparr>"
  have t: "trace (client_of (parse_message ?c ?l)) = [Fired ''message'' (MessageArg ?m)]"
    by code_simp
  have e: "trace ?c = []" by (simp add: init_client_def)
  from received_messages_unsigned [of ?c ?l] obtain new where
    n: "trace (client_of (parse_message ?c ?l)) = trace ?c @ new"
    and u: "\<forall>ev h m. Fired ev (MessageArg m) \<in> set new \<or> Called ev h (MessageArg m) \<in> set new
            \<longrightarrow> signature m = None \<and> \<not> is_verified m"
    by blast
  from n t e have "new = [Fired ''message'' (MessageArg ?m)]" by simp
  then have "Fired ''message'' (MessageArg ?m) \<in> set new" by simp
  with u have "\<not> is_verified ?m" by blast
  with t show ?thesis by simp
qed

section \<open>Channel membership\<close>

lemma trigger_channels: "channels (client_of (trigger st event arg)) = channels st"
  by (simp add: trigger_client)

lemma dispatch_command_frame:
  assumes "\<not> (nk = nick st \<and> (command = ''JOIN'' \<or> command = ''PART''))"
  shows "channels (client_of (dispatch_command st nk command params)) = channels st"
proof -
  consider (privmsg) "command = ''PRIVMSG''"
    | (join) "command = ''JOIN''" "nk \<noteq> nick st"
    | (part) "command = ''PART''" "nk \<noteq> nick st"
    | (quit) "command = ''QUIT''"
    | (other) "command \<noteq> ''PRIVMSG''" "command \<noteq> ''JOIN''" "command \<noteq> ''PART''" "command \<noteq> ''QUIT''"
    using assms by blast
  then show ?thesis
  proof cases
    case privmsg
    then show ?thesis by (simp add: dispatch_command_def trigger_client)
  next
    case join
    have "getitem (str_split '' :'' params) (- 1) = Inr (last (str_split '' :'' params))"
      by (rule getitem_last) (rule str_split_nonempty)
    with join show ?thesis by (simp add: dispatch_command_def trigger_client)
  next
    case part
    show ?thesis
    proof (cases "split_ws params")
      case Nil
      with part show ?thesis by (simp add: dispatch_command_def getitem_0 client_of_def)
    next
      case (Cons chan rest)
      with part show ?thesis by (simp add: dispatch_command_def getitem_0 trigger_client)
    qed
  next
    case quit
    then show ?thesis by (simp add: dispatch_command_def trigger_client)
  next
    case other
    then show ?thesis by (simp add: dispatch_command_def client_of_def)
  qed
qed

lemma dispatch_command_channels:
  assumes "channels (client_of (dispatch_command st nk command params)) \<noteq> channels st"
  shows "nk = nick st \<and> (command = ''JOIN'' \<or> command = ''PART'')"
  using assms dispatch_command_frame [of nk st command params] by blast

lemma dispatch_own_join:
  "dispatch_command st (nick st) ''JOIN'' params =
     trigger (st\<lparr>channels := insert (last (str_split '' :'' params)) (channels st)\<rparr>)
       ''join'' (ChannelNickArg (last (str_split '' :'' params)) (nick st))"
proof -
  have "getitem (str_split '' :'' params) (- 1) = Inr (last (str_split '' :'' params))"
    by (rule getitem_last) (rule str_split_nonempty)
  then show ?thesis
    by (simp add: dispatch_command_def)
qed

text \<open>
  C8. Parsing a line changes the channel set only if the line starts with \<open>:\<close>, its
  command is \<open>JOIN\<close> or \<open>PART\<close>, and the nick of its source (the source up to the first
  \<open>!\<close>) is the client's own nick. \<open>say\<close>, \<open>join\<close>, \<open>part\<close> and \<open>quit\<close> leave the channel
  set as it is. Parsing the same \<open>JOIN\<close> line of the client's own nick twice gives, after
  the second time, the channel set that the first time gave: the old set with the
  channel in it. Both parses return, unless a handler registered for \<open>join\<close> raises
  outside \<open>Exception\<close>; the channel set is the same then.
\<close>

theorem membership_follows_own_join_part:
  "(channels (client_of (parse_message st line)) \<noteq> channels st \<longrightarrow>
      (\<exists>rest. line = CHR '':'' # rest
         \<and> 2 \<le> length (str_split_n '' '' 2 rest)
         \<and> takeWhile (\<lambda>c. c \<noteq> CHR ''!'') (str_split_n '' '' 2 rest ! 0) = nick st
         \<and> (str_split_n '' '' 2 rest ! 1 = ''JOIN'' \<or> str_split_n '' '' 2 rest ! 1 = ''PART'')))
   \<and> channels (say hmac_hex st target msg signed) = channels st
   \<and> channels (join st chan) = channels st
   \<and> channels (part st chan reason) = channels st
   \<and> channels (quit st reason) = channels st
   \<and> (CHR '' '' \<notin> set source \<and> takeWhile (\<lambda>c. c \<noteq> CHR ''!'') source = nick st \<longrightarrow>
        (\<exists>st1 st2.
           client_of (parse_message st ('':'' @ source @ '' JOIN '' @ params)) = st1
         \<and> client_of (parse_message st1 ('':'' @ source @ '' JOIN '' @ params)) = st2
         \<and> channels st1 = insert (last (str_split '' :'' params)) (channels st)
         \<and> channels st2 = channels st1
         \<and> (escaping (ChannelNickArg (last (str_split '' :'' params)) (nick st))
               (handlers_get st ''join'') = None \<longrightarrow>
              parse_message st ('':'' @ source @ '' JOIN '' @ params) = Inr st1
            \<and> parse_message st1 ('':'' @ source @ '' JOIN '' @ params) = Inr st2)))"
proof -
  have only: "channels (client_of (parse_message st line)) \<noteq> channels st \<longrightarrow>
      (\<exists>rest. line = CHR '':'' # rest
         \<and> 2 \<le> length (str_split_n '' '' 2 rest)
         \<and> takeWhile (\<lambda>c. c \<noteq> CHR ''!'') (str_split_n '' '' 2 rest ! 0) = nick st
         \<and> (str_split_n '' '' 2 rest ! 1 = ''JOIN'' \<or> str_split_n '' '' 2 rest ! 1 = ''PART''))"
  proof
    assume ch: "channels (client_of (parse_message st line)) \<noteq> channels st"
    consider (ping) "startswith line ''PING''"
      | (prefixed) rest where "line = CHR '':'' # rest"
      | (other) "\<not> startswith line ''PING''" "\<not> startswith line '':''"
      using starts_with_colon by blast
    then show "\<exists>rest. line = CHR '':'' # rest
         \<and> 2 \<le> length (str_split_n '' '' 2 rest)
         \<and> takeWhile (\<lambda>c. c \<noteq> CHR ''!'') (str_split_n '' '' 2 rest ! 0) = nick st
         \<and> (str_split_n '' '' 2 rest ! 1 = ''JOIN'' \<or> str_split_n '' '' 2 rest ! 1 = ''PART'')"
    proof cases
      case ping
      with ch show ?thesis by (simp add: parse_message_ping send_channels)
    next
      case prefixed
      let ?parts = "str_split_n '' '' 2 rest"
      have two: "2 \<le> length ?parts"
      proof (rule ccontr)
        assume "\<not> 2 \<le> length ?parts"
        then have "parse_message st line = Inr st"
          unfolding prefixed parse_message_prefixed by (simp add: Let_def del: str_split_n.simps)
        with ch show False by (simp add: client_of_def)
      qed
      let ?nk = "takeWhile (\<lambda>c. c \<noteq> CHR ''!'') (?parts ! 0)"
      let ?params = "if 2 < length ?parts then ?parts ! 2 else []"
      from two have "parse_message st line = dispatch_command st ?nk (?parts ! 1) ?params"
        unfolding prefixed parse_message_prefixed by (simp add: Let_def del: str_split_n.simps)
      with ch have "channels (client_of (dispatch_command st ?nk (?parts ! 1) ?params)) \<noteq> channels st"
        by simp
      from dispatch_command_channels [OF this] two prefixed show ?thesis by blast
    next
      case other
      with ch show ?thesis by (simp add: parse_message_other client_of_def)
    qed
  qed
  have twice: "CHR '' '' \<notin> set source \<and> takeWhile (\<lambda>c. c \<noteq> CHR ''!'') source = nick st \<longrightarrow>
        (\<exists>st1 st2.
           client_of (parse_message st ('':'' @ source @ '' JOIN '' @ params)) = st1
         \<and> client_of (parse_message st1 ('':'' @ source @ '' JOIN '' @ params)) = st2
         \<and> channels st1 = insert (last (str_split '' :'' params)) (channels st)
         \<and> channels st2 = channels st1
         \<and> (escaping (ChannelNickArg (last (str_split '' :'' params)) (nick st))
               (handlers_get st ''join'') = None \<longrightarrow>
              parse_message st ('':'' @ source @ '' JOIN '' @ params) = Inr st1
            \<and> parse_message st1 ('':'' @ source @ '' JOIN '' @ params) = Inr st2))"
  proof
    assume a: "CHR '' '' \<notin> set source \<and> takeWhile (\<lambda>c. c \<noteq> CHR ''!'') source = nick st"
    let ?line = "'':'' @ source @ '' JOIN '' @ params"
    let ?chan = "last (str_split '' :'' params)"
    let ?arg = "ChannelNickArg ?chan (nick st)"
    let ?st1 = "st\<lparr>channels := insert ?chan (channels st),
                   trace := trace st @ Fired ''join'' ?arg # handler_obs ''join'' ?arg (handlers_get st ''join'')\<rparr>"
    let ?st2 = "?st1\<lparr>channels := insert ?chan (channels ?st1),
                   trace := trace ?st1 @ Fired ''join'' ?arg # handler_obs ''join'' ?arg (handlers_get st ''join'')\<rparr>"
    have shape: "\<And>s. parse_message s ('':'' @ source @ '' '' @ ''JOIN'' @ '' '' @ params) =
              dispatch_command s (nick st) ''JOIN'' params"
      using a parse_message_three [of source "''JOIN''" _ params] by simp
    have hg: "\<And>c t. handlers_get (st\<lparr>channels := c, trace := t\<rparr>) ''join'' = handlers_get st ''join''"
      by (simp add: handlers_get_def)
    have p1: "parse_message st ?line =
        (case escaping ?arg (handlers_get st ''join'') of None \<Rightarrow> Inr ?st1 | Some e \<Rightarrow> Inl (e, ?st1))"
      using shape [of st] dispatch_own_join [of st params]
      by (simp add: trigger_eq handlers_get_def split: option.split)
    have n1: "nick ?st1 = nick st" by simp
    have p2: "parse_message ?st1 ?line =
        (case escaping ?arg (handlers_get st ''join'') of None \<Rightarrow> Inr ?st2 | Some e \<Rightarrow> Inl (e, ?st2))"
      using shape [of ?st1] dispatch_own_join [of ?st1 params] unfolding n1
      by (simp add: trigger_eq handlers_get_def split: option.split)
    have c1: "client_of (parse_message st ?line) = ?st1"
      unfolding p1 by (simp add: client_of_def split: option.split)
    have c2: "client_of (parse_message ?st1 ?line) = ?st2"
      unfolding p2 by (simp add: client_of_def split: option.split)
    have ch: "channels ?st1 = insert ?chan (channels st)" "channels ?st2 = channels ?st1"
      by simp_all
    have r: "escaping ?arg (handlers_get st ''join'') = None \<longrightarrow>
               parse_message st ?line = Inr ?st1 \<and> parse_message ?st1 ?line = Inr ?st2"
      unfolding p1 p2 by simp
    from c1 c2 ch(1) ch(2) r show "\<exists>st1 st2.
           client_of (parse_message st ('':'' @ source @ '' JOIN '' @ params)) = st1
         \<and> client_of (parse_message st1 ('':'' @ source @ '' JOIN '' @ params)) = st2
         \<and> channels st1 = insert (last (str_split '' :'' params)) (channels st)
         \<and> channels st2 = channels st1
         \<and> (escaping (ChannelNickArg (last (str_split '' :'' params)) (nick st))
               (handlers_get st ''join'') = None \<longrightarrow>
              parse_message st ('':'' @ source @ '' JOIN '' @ params) = Inr st1
            \<and> parse_message st1 ('':'' @ source @ '' JOIN '' @ params) = Inr st2)"
      by (intro exI [of _ ?st1] exI [of _ ?st2] conjI)
  qed
  have ops: "channels (say hmac_hex st target msg signed) = channels st"
    "channels (join st chan) = channels st"
    "channels (part st chan reason) = channels st"
    "channels (quit st reason) = channels st"
    by (simp_all add: say_def join_def part_def quit_def create_task_send_def emit_def Let_def)
  show ?thesis by (intro conjI only ops twice)
qed



theorem membership_follows_own_join_part_witness:
  "channels (client_of (parse_message (init_client ''Bot'' None True) '':Bot!u@h JOIN #general''))
     = {''#general''}
   \<and> takeWhile (\<lambda>c. c \<noteq> CHR ''!'') (str_split_n '' '' 2 ''Bot!u@h JOIN #general'' ! 0) = ''Bot''
   \<and> channels (client_of (parse_message
        (client_of (parse_message (init_client ''Bot'' None True) '':Bot!u@h JOIN #general''))
        '':Bot!u@h JOIN #general'')) = {''#general''}
   \<and> channels (quit (init_client ''Bot'' None True) ''Bye'') = {}
   \<and> parse_message (init_client ''Bot'' None True) '':Bot!u@h JOIN #general'' =
       Inr (client_of (parse_message (init_client ''Bot'' None True) '':Bot!u@h JOIN #general''))"
proof -
  let ?c = "init_client ''Bot'' None True"
  let ?l = "'':Bot!u@h JOIN #general''"
  note inst = membership_follows_own_join_part
    [of ?c ?l "\<lambda>key msg. []" "''#general''" "''hello''" False "''#general''" "''Bye''"
        "''Bot!u@h''" "''#general''"]
  note only = inst [THEN conjunct1]
  note quit_frame = inst [THEN conjunct2, THEN conjunct2, THEN conjunct2, THEN conjunct2, THEN conjunct1]
  note twice = inst [THEN conjunct2, THEN conjunct2, THEN conjunct2, THEN conjunct2, THEN conjunct2]
  have c0: "channels ?c = {}" by (simp add: init_client_def)
  have n0: "nick ?c = ''Bot''" by (simp add: init_client_def)
  have ev: "channels (client_of (parse_message ?c ?l)) = {''#general''}" by code_simp
  have "channels (client_of (parse_message ?c ?l)) \<noteq> channels ?c"
    unfolding ev c0 by simp
  from only [THEN mp, OF this] obtain rest where r1: "?l = CHR '':'' # rest"
      and r2: "takeWhile (\<lambda>c. c \<noteq> CHR ''!'') (str_split_n '' '' 2 rest ! 0) = nick ?c"
    by blast
  from r1 have "rest = ''Bot!u@h JOIN #general''" by simp
  with r2 n0 have own: "takeWhile (\<lambda>c. c \<noteq> CHR ''!'') (str_split_n '' '' 2 ''Bot!u@h JOIN #general'' ! 0) = ''Bot''"
    by (simp only:)
  have pre: "CHR '' '' \<notin> set ''Bot!u@h'' \<and> takeWhile (\<lambda>c. c \<noteq> CHR ''!'') ''Bot!u@h'' = nick ?c"
    unfolding n0 by simp
  have a: "'':'' @ ''Bot!u@h'' @ '' JOIN '' @ ''#general'' = ?l" by simp
  have l: "last (str_split '' :'' ''#general'') = ''#general''" by code_simp
  from twice [THEN mp, OF pre, unfolded a] obtain st1 where
    "\<exists>st2. client_of (parse_message ?c ?l) = st1
         \<and> client_of (parse_message st1 ?l) = st2
         \<and> channels st1 = insert (last (str_split '' :'' ''#general'')) (channels ?c)
         \<and> channels st2 = channels st1
         \<and> (escaping (ChannelNickArg (last (str_split '' :'' ''#general'')) (nick ?c))
               (handlers_get ?c ''join'') = None \<longrightarrow>
              parse_message ?c ?l = Inr st1 \<and> parse_message st1 ?l = Inr st2)" ..
  then obtain st2 where both:
    "client_of (parse_message ?c ?l) = st1
         \<and> client_of (parse_message st1 ?l) = st2
         \<and> channels st1 = insert (last (str_split '' :'' ''#general'')) (channels ?c)
         \<and> channels st2 = channels st1
         \<and> (escaping (ChannelNickArg (last (str_split '' :'' ''#general'')) (nick ?c))
               (handlers_get ?c ''join'') = None \<longrightarrow>
              parse_message ?c ?l = Inr st1 \<and> parse_message st1 ?l = Inr st2)" ..
  note e1 = both [THEN conjunct1]
  note e2 = both [THEN conjunct2, THEN conjunct1]
  note s1 = both [THEN conjunct2, THEN conjunct2, THEN conjunct1]
  note s2 = both [THEN conjunct2, THEN conjunct2, THEN conjunct2, THEN conjunct1]
  have again: "channels (client_of (parse_message (client_of (parse_message ?c ?l)) ?l)) = {''#general''}"
    unfolding e1 e2 s2 s1 l c0 by (rule refl)
  have q: "channels (quit ?c ''Bye'') = {}"
    using quit_frame unfolding c0 .
  have "escaping (ChannelNickArg (last (str_split '' :'' ''#general'')) (nick ?c))
          (handlers_get ?c ''join'') = None"
    by (simp add: handlers_get_def init_client_def)
  from both [THEN conjunct2, THEN conjunct2, THEN conjunct2, THEN conjunct2, THEN mp, OF this]
  have "parse_message ?c ?l = Inr st1" by (rule conjunct1)
  then have ret: "parse_message ?c ?l = Inr (client_of (parse_message ?c ?l))"
    unfolding e1 .
  from ev own again q ret show ?thesis by (intro conjI)
qed

section \<open>Malformed lines in the read loop\<close>

lemma unknown_command_ignored:
  "command \<noteq> ''PRIVMSG'' \<Longrightarrow> command \<noteq> ''JOIN'' \<Longrightarrow> command \<noteq> ''PART'' \<Longrightarrow>
   command \<noteq> ''QUIT'' \<Longrightarrow> dispatch_command st nk command params = Inr st"
  by (simp add: dispatch_command_def)

lemma loop_except_raises: "loop_except e st = Inl (e', st') \<Longrightarrow> \<not> is_exception e'"
  by (auto simp: loop_except_def split: if_splits)

lemma read_loop_raises: "read_loop rs st = Inl (e, st') \<Longrightarrow> \<not> is_exception e"
proof (induction rs arbitrary: st)
  case Nil
  then show ?case by simp
next
  case (Cons r rs)
  show ?case
  proof (cases "connected st \<and> has_reader st")
    case False
    with Cons.prems show ?thesis by simp
  next
    case True
    show ?thesis
    proof (cases r)
      case (Data raw)
      show ?thesis
      proof (cases "raw = []")
        case True
        with Data Cons.prems \<open>connected st \<and> has_reader st\<close> show ?thesis by simp
      next
        case False
        show ?thesis
        proof (cases "parse_message st (strip raw)")
          case (Inl x)
          obtain e1 s1 where "x = (e1, s1)" by (cases x)
          with Inl Data False True Cons.prems have "loop_except e1 s1 = Inl (e, st')" by simp
          then show ?thesis by (rule loop_except_raises)
        next
          case (Inr s1)
          with Data False True Cons.prems have "read_loop rs s1 = Inl (e, st')" by simp
          then show ?thesis by (rule Cons.IH)
        qed
      qed
    next
      case Garbage
      with True Cons.prems have "loop_except UnicodeDecodeError st = Inl (e, st')" by simp
      then show ?thesis by (rule loop_except_raises)
    next
      case (ReadFails x)
      with True Cons.prems have "loop_except x st = Inl (e, st')" by simp
      then show ?thesis by (rule loop_except_raises)
    qed
  qed
qed

text \<open>No \<open>Exception\<close> leaves \<open>_handle_messages\<close>.\<close>

lemma handle_messages_raises: "handle_messages rs st = Inl (e, st') \<Longrightarrow> \<not> is_exception e"
proof (cases "read_loop rs st")
  case (Inl x)
  assume h: "handle_messages rs st = Inl (e, st')"
  obtain e1 s1 where "x = (e1, s1)" by (cases x)
  with Inl h have "read_loop rs st = Inl (e, st')" by (simp add: handle_messages_def and_then_def)
  then show ?thesis by (rule read_loop_raises)
next
  case (Inr s1)
  assume "handle_messages rs st = Inl (e, st')"
  with Inr have "trigger (s1\<lparr>connected := False\<rparr>) ''disconnect'' NoArgs = Inl (e, st')"
    by (simp add: handle_messages_def and_then_def)
  then show ?thesis by (rule trigger_raises)
qed

lemma part_without_params: "parse_message st '':Bob!u@h PART'' = Inl (IndexError, st)"
proof -
  have "parse_message st ('':'' @ ''Bob!u@h'' @ '' '' @ ''PART'') =
          dispatch_command st (takeWhile (\<lambda>c. c \<noteq> CHR ''!'') ''Bob!u@h'') ''PART'' []"
    by (rule parse_message_two) simp_all
  moreover have "getitem (split_ws []) 0 = Inl IndexError"
    by (simp add: split_ws_def getitem_0)
  ultimately show ?thesis by (simp add: dispatch_command_def)
qed

lemma strip_part_line: "strip ('':Bob!u@h PART'' @ crlf) = '':Bob!u@h PART''"
  by code_simp

lemma part_line_breaks:
  "connected st \<Longrightarrow> has_reader st \<Longrightarrow>
   read_loop (Data ('':Bob!u@h PART'' @ crlf) # rs) st =
     Inr (emit st (LogMessageError IndexError))"
  by (simp add: strip_part_line part_without_params loop_except_def del: append.simps)

lemma connect_try_handshake:
  "soul st = None \<Longrightarrow> handlers_get st ''connect'' = [] \<Longrightarrow>
   connect_try hmac_hex (Accepted now None rs) st =
     handle_messages rs
       (st\<lparr>has_reader := True, writer := Some (Writer None), connected := True,
            trace := trace st @ [OpenConnection, Wrote (''NICK '' @ nick st @ crlf),
                       Wrote (''USER '' @ nick st @ '' 0 * :'' @ nick st @ '' Agent'' @ crlf),
                       Fired ''connect'' NoArgs]\<rparr>)"
  by (simp add: connect_try_def Let_def send_def emit_def and_then_def trigger_eq
        handlers_get_def)

text \<open>
  C3 at the line \<open>:Bob!u@h PART\<close>. Parsing it raises \<open>IndexError\<close>, for every state of
  the client. In a connection that delivers this line and then a \<open>QUIT\<close> line, the read
  loop logs the error and ends: the \<open>disconnect\<close> event is triggered, the second line is
  never parsed, and \<open>connect\<close> returns.
\<close>

theorem part_without_params_ends_read_loop:
  "parse_message st '':Bob!u@h PART'' = Inl (IndexError, st)
   \<and> connect hmac_hex
        [Accepted now None [Data ('':Bob!u@h PART'' @ crlf), Data ('':Carol!u@h QUIT :bye'' @ crlf)]]
        (init_client ''Bot'' None False) =
       Returned ((init_client ''Bot'' None False)
         \<lparr>has_reader := True, writer := Some (Writer None),
          trace := [OpenConnection, Wrote (''NICK Bot'' @ crlf),
                    Wrote (''USER Bot 0 * :Bot Agent'' @ crlf), Fired ''connect'' NoArgs,
                    LogMessageError IndexError, Fired ''disconnect'' NoArgs]\<rparr>)"
proof -
  let ?c = "init_client ''Bot'' None False"
  have s: "soul ?c = None" "handlers_get ?c ''connect'' = []"
    by (simp_all add: init_client_def handlers_get_def)
  have "connect hmac_hex
        [Accepted now None [Data ('':Bob!u@h PART'' @ crlf), Data ('':Carol!u@h QUIT :bye'' @ crlf)]] ?c =
       Returned (?c
         \<lparr>has_reader := True, writer := Some (Writer None),
          trace := [OpenConnection, Wrote (''NICK Bot'' @ crlf),
                    Wrote (''USER Bot 0 * :Bot Agent'' @ crlf), Fired ''connect'' NoArgs,
                    LogMessageError IndexError, Fired ''disconnect'' NoArgs]\<rparr>)"
    by (simp add: connect_try_handshake [OF s] handle_messages_def and_then_def
          part_line_breaks trigger_eq del: append.simps read_loop.simps)
       (simp add: emit_def handlers_get_def init_client_def)
  with part_without_params show ?thesis by blast
qed

section \<open>Reconnecting\<close>

lemma eof_ends_read_loop: "read_loop (Data [] # rs) st = Inr st"
  by simp

lemma connect_returns_after_try:
  "connect_try hmac_hex s st = Inr st' \<Longrightarrow> connect hmac_hex (s # ss) st = Returned st'"
  by simp

text \<open>With a writer that takes every send, an accepted connection never leads to a
  reconnect, whatever the reader delivers: \<open>connect\<close> returns, or it raises what is not
  an \<open>Exception\<close>.\<close>

lemma connect_try_accepted_raises:
  assumes "connect_try hmac_hex (Accepted now None rs) st = Inl (e, st')"
  shows "\<not> is_exception e"
  using assms
  by (auto simp: connect_try_def Let_def send_def emit_def and_then_def authenticate_soul_def
        split: option.splits sum.splits dest: trigger_raises handle_messages_raises)

lemma accepted_never_reconnects:
  "(\<exists>st'. connect hmac_hex (Accepted now None rs # ss) st = Returned st')
   \<or> (\<exists>e st'. \<not> is_exception e \<and> connect hmac_hex (Accepted now None rs # ss) st = Raised e st')"
proof (cases "connect_try hmac_hex (Accepted now None rs) st")
  case (Inl x)
  obtain e st' where x: "x = (e, st')" by (cases x)
  with Inl have "\<not> is_exception e" by (auto dest: connect_try_accepted_raises)
  with Inl x show ?thesis by simp
next
  case (Inr st')
  then show ?thesis by simp
qed

text \<open>
  C2 at a transport that accepts the connection, takes the handshake and is at end of
  file at the first read, with \<open>auto_reconnect\<close> on. \<open>connect\<close> returns after the
  \<open>disconnect\<close> event, whatever sessions the environment has left: there is one
  connection attempt and no sleep. When instead the connection attempt itself fails,
  \<open>connect\<close> sleeps 5 and opens a second connection.
\<close>

theorem no_reconnect_after_end_of_file:
  "connect hmac_hex (Accepted now None [Data []] # ss) (init_client ''Bot'' None True) =
     Returned ((init_client ''Bot'' None True)
       \<lparr>has_reader := True, writer := Some (Writer None),
        trace := [OpenConnection, Wrote (''NICK Bot'' @ crlf),
                  Wrote (''USER Bot 0 * :Bot Agent'' @ crlf), Fired ''connect'' NoArgs,
                  Fired ''disconnect'' NoArgs]\<rparr>)
   \<and> connect hmac_hex (Refused (OSError ''refused'') # Accepted now None [Data []] # ss)
       (init_client ''Bot'' None True) =
     Returned ((init_client ''Bot'' None True)
       \<lparr>has_reader := True, writer := Some (Writer None),
        trace := [OpenConnection, LogConnectionError (OSError ''refused''),
                  Fired ''disconnect'' (ErrorArg (OSError ''refused'')),
                  LogReconnecting, Sleep 5,
                  OpenConnection, Wrote (''NICK Bot'' @ crlf),
                  Wrote (''USER Bot 0 * :Bot Agent'' @ crlf), Fired ''connect'' NoArgs,
                  Fired ''disconnect'' NoArgs]\<rparr>)"
proof -
  let ?c = "init_client ''Bot'' None True"
  have s: "soul ?c = None" "handlers_get ?c ''connect'' = []"
    by (simp_all add: init_client_def handlers_get_def)
  have 1: "connect hmac_hex (Accepted now None [Data []] # ss) ?c =
     Returned (?c
       \<lparr>has_reader := True, writer := Some (Writer None),
        trace := [OpenConnection, Wrote (''NICK Bot'' @ crlf),
                  Wrote (''USER Bot 0 * :Bot Agent'' @ crlf), Fired ''connect'' NoArgs,
                  Fired ''disconnect'' NoArgs]\<rparr>)"
    by (simp add: connect_try_handshake [OF s] handle_messages_def and_then_def trigger_eq)
       (simp add: emit_def handlers_get_def init_client_def)
  let ?d = "?c\<lparr>trace := [OpenConnection, LogConnectionError (OSError ''refused''),
                  Fired ''disconnect'' (ErrorArg (OSError ''refused'')),
                  LogReconnecting, Sleep 5]\<rparr>"
  have t: "soul ?d = None" "handlers_get ?d ''connect'' = []"
    by (simp_all add: init_client_def handlers_get_def)
  have r: "connect hmac_hex (Refused (OSError ''refused'') # Accepted now None [Data []] # ss) ?c =
           connect hmac_hex (Accepted now None [Data []] # ss) ?d"
    by (subst connect.simps(2))
       (simp add: connect_try_def trigger_eq Let_def emit_def handlers_get_def
          init_client_def del: connect.simps)
  have 2: "connect hmac_hex (Accepted now None [Data []] # ss) ?d =
     Returned (?c
       \<lparr>has_reader := True, writer := Some (Writer None),
        trace := [OpenConnection, LogConnectionError (OSError ''refused''),
                  Fired ''disconnect'' (ErrorArg (OSError ''refused'')),
                  LogReconnecting, Sleep 5,
                  OpenConnection, Wrote (''NICK Bot'' @ crlf),
                  Wrote (''USER Bot 0 * :Bot Agent'' @ crlf), Fired ''connect'' NoArgs,
                  Fired ''disconnect'' NoArgs]\<rparr>)"
    by (simp add: connect_try_handshake [OF t] handle_messages_def and_then_def trigger_eq)
       (simp add: emit_def handlers_get_def init_client_def)
  from 1 r 2 show ?thesis by simp
qed


section \<open>Signing and verifying\<close>

text \<open>
  What \<open>verify\<close> computes, for any digest function with ASCII output: it accepts the
  signature that \<open>sign\<close> gives for the same content, and it accepts the signature of
  another content exactly when the two digests are equal. Whether the digests of a
  content and of the content followed by \<open>x\<close> ever coincide is a property of
  HMAC-SHA256 itself, which these definitions leave open.
\<close>

lemma verify_sign:
  "list_all (\<lambda>c. (of_char c :: nat) < 128) (hmac_hex (seed s) body) \<Longrightarrow>
   verify hmac_hex s body (sign hmac_hex s body) = Inr True"
  by (simp add: verify_def sign_def compare_digest_def)

lemma verify_other_body:
  "list_all (\<lambda>c. (of_char c :: nat) < 128) (hmac_hex (seed s) body) \<Longrightarrow>
   list_all (\<lambda>c. (of_char c :: nat) < 128) (hmac_hex (seed s) body') \<Longrightarrow>
   verify hmac_hex s body (sign hmac_hex s body') =
     Inr (hmac_hex (seed s) body = hmac_hex (seed s) body')"
  by (simp add: verify_def sign_def compare_digest_def)

end
